theory Spec2Isabelle
  imports Main "HOL-Library.AList" "HOL-Library.Sublist" "HOL-Library.Word"
begin

section \<open>Path validation (src/pathUtils.js)\<close>

text \<open>
  JavaScript strings are modelled as \<^typ>\<open>string\<close>, by the bytes of their UTF-8
  encoding. A parameter that may be missing
  (\<open>undefined\<close>, \<open>null\<close>) is a \<^typ>\<open>string option\<close>; the folder argument of
  \<open>validatePath\<close> is a string, and the empty string is its only falsy value.
\<close>

subsection \<open>String primitives\<close>

text \<open>\<open>String.prototype.startsWith\<close> and \<open>String.prototype.includes\<close>.\<close>

fun startsWith :: "string \<Rightarrow> string \<Rightarrow> bool" where
  "startsWith s [] = True"
| "startsWith [] (p # ps) = False"
| "startsWith (c # cs) (p # ps) = (c = p \<and> startsWith cs ps)"

fun includes_str :: "string \<Rightarrow> string \<Rightarrow> bool" where
  "includes_str [] sub = (sub = [])"
| "includes_str (c # cs) sub = (startsWith (c # cs) sub \<or> includes_str cs sub)"

text \<open>
  \<open>String.prototype.split\<close> with a one-character separator: the pieces between the
  separators, always at least one piece.
\<close>

fun split_on :: "char \<Rightarrow> string \<Rightarrow> string list" where
  "split_on sep [] = [[]]"
| "split_on sep (c # cs) =
     (if c = sep then [] # split_on sep cs
      else (case split_on sep cs of
              [] \<Rightarrow> [[c]]
            | p # ps \<Rightarrow> (c # p) # ps))"

text \<open>\<open>path.isAbsolute\<close> of the POSIX \<open>path\<close> module (the service runs on Linux).\<close>

fun isAbsolute :: "string \<Rightarrow> bool" where
  "isAbsolute [] = False"
| "isAbsolute (c # cs) = (c = CHR ''/'')"

text \<open>
  The regular expression \<open>/^[a-zA-Z0-9_-]+$/\<close>: one or more characters, each of the
  class. Without the \<open>m\<close> flag, \<open>$\<close> matches at the end of the input only.
\<close>

definition safe_chars :: string where
  "safe_chars = ''abcdefghijklmnopqrstuvwxyzABCDEFGHIJKLMNOPQRSTUVWXYZ0123456789_-''"

definition safe_char :: "char \<Rightarrow> bool" where
  "safe_char c = (c \<in> set safe_chars)"

definition safePattern :: "string \<Rightarrow> bool" where
  "safePattern s = (s \<noteq> [] \<and> list_all safe_char s)"

text \<open>\<open>filename.split('.')[0]\<close>: the part of the filename before its first period.\<close>

definition filenameBase :: "string \<Rightarrow> string" where
  "filenameBase filename = hd (split_on CHR ''.'' filename)"

subsection \<open>validatePath\<close>

text \<open>The six \<open>throw new Error(...)\<close> statements of \<open>validatePath\<close>, and their messages.\<close>

datatype verror =
    FolderRequired
  | InvalidFolderPath
  | InvalidFolderName
  | FilenameRequired
  | InvalidFilePath
  | InvalidFilename

fun message :: "verror \<Rightarrow> string" where
  "message FolderRequired = ''Folder name is required''"
| "message InvalidFolderPath = ''Invalid folder path''"
| "message InvalidFolderName = ''Invalid folder name''"
| "message FilenameRequired = ''Filename is required''"
| "message InvalidFilePath = ''Invalid file path''"
| "message InvalidFilename = ''Invalid filename''"

text \<open>
  The returned object: \<open>{ folder, filename }\<close>, or \<open>{ folder }\<close> with no filename
  property.
\<close>

record validated =
  safeFolder :: string
  safeFilename :: "string option"

text \<open>Truthiness of an optional string: \<open>undefined\<close>, \<open>null\<close> and \<open>''\<close> are falsy.\<close>

fun truthy :: "string option \<Rightarrow> bool" where
  "truthy None = False"
| "truthy (Some s) = (s \<noteq> [])"

text \<open>
  The string behind a truthy optional value. On \<open>None\<close> it is the empty string; every
  use below is under a \<^const>\<open>truthy\<close> test.
\<close>

fun str :: "string option \<Rightarrow> string" where
  "str None = []"
| "str (Some s) = s"

definition validatePath :: "string \<Rightarrow> string option \<Rightarrow> verror + validated" where
  "validatePath folder filename =
     (if folder = [] then Inl FolderRequired
      else if isAbsolute folder \<or> includes_str folder ''..'' \<or> startsWith folder ''.''
        then Inl InvalidFolderPath
      else if \<not> safePattern folder then Inl InvalidFolderName
      else if truthy filename then
        (if \<not> truthy filename then Inl FilenameRequired
         else if isAbsolute (str filename) \<or> includes_str (str filename) ''..''
                 \<or> startsWith (str filename) ''.''
           then Inl InvalidFilePath
         else if \<not> safePattern (filenameBase (str filename)) then Inl InvalidFilename
         else Inr \<lparr>safeFolder = folder, safeFilename = filename\<rparr>)
      else Inr \<lparr>safeFolder = folder, safeFilename = None\<rparr>)"

text \<open>\<open>buildPublicUrl\<close>; \<open>baseUrl\<close> is the value of \<open>process.env.PUBLIC_URL\<close>.\<close>

definition buildPublicUrl :: "string \<Rightarrow> string \<Rightarrow> string option \<Rightarrow> string" where
  "buildPublicUrl baseUrl folder filename =
     (if truthy filename then baseUrl @ ''/public/'' @ folder @ ''/'' @ str filename
      else baseUrl @ ''/public/'' @ folder @ ''/'')"

section \<open>Properties of validatePath\<close>

lemma split_on_not_Nil: "split_on sep s \<noteq> []"
  by (induction s) (auto split: list.splits)

lemma hd_split_on: "hd (split_on sep s) = takeWhile (\<lambda>c. c \<noteq> sep) s"
proof (induction s)
  case Nil
  show ?case by simp
next
  case (Cons c cs)
  show ?case
  proof (cases "c = sep")
    case True
    then show ?thesis by simp
  next
    case False
    obtain p ps where sp: "split_on sep cs = p # ps"
      using split_on_not_Nil [of sep cs] by (cases "split_on sep cs") auto
    with Cons False show ?thesis by simp
  qed
qed

lemma filenameBase_takeWhile: "filenameBase n = takeWhile (\<lambda>c. c \<noteq> CHR ''.'') n"
  by (simp add: filenameBase_def hd_split_on)

lemma dot_not_safe: "\<not> safe_char CHR ''.''"
  by (simp add: safe_char_def safe_chars_def)

lemma slash_not_safe: "\<not> safe_char CHR ''/''"
  by (simp add: safe_char_def safe_chars_def)

lemma safePattern_no_dot: "safePattern s \<Longrightarrow> CHR ''.'' \<notin> set s"
  using dot_not_safe by (auto simp: safePattern_def list_all_iff)

lemma safePattern_no_slash: "safePattern s \<Longrightarrow> CHR ''/'' \<notin> set s"
  using slash_not_safe by (auto simp: safePattern_def list_all_iff)

lemma startsWith_dotdot: "startsWith s ''..'' \<Longrightarrow> \<exists>r. s = CHR ''.'' # CHR ''.'' # r"
  by (cases s; cases "tl s") auto

lemma includes_dotdot_dot: "includes_str s ''..'' \<Longrightarrow> CHR ''.'' \<in> set s"
  by (induction s) (auto dest: startsWith_dotdot)

lemma safePattern_hd:
  assumes "safePattern s"
  shows "\<not> isAbsolute s" and "\<not> startsWith s ''.''" and "\<not> includes_str s ''..''"
proof -
  from assms obtain c cs where s: "s = c # cs" and c: "safe_char c"
    by (cases s) (auto simp: safePattern_def)
  from c show "\<not> isAbsolute s" using slash_not_safe by (auto simp: s)
  from c show "\<not> startsWith s ''.''" using dot_not_safe by (auto simp: s)
  show "\<not> includes_str s ''..''"
    using includes_dotdot_dot [of s] safePattern_no_dot [OF assms] by blast
qed

lemma safePattern_base_hd:
  assumes "safePattern (filenameBase n)"
  shows "n \<noteq> []" and "\<not> isAbsolute n" and "\<not> startsWith n ''.''"
proof -
  from assms obtain c cs where b: "takeWhile (\<lambda>c. c \<noteq> CHR ''.'') n = c # cs"
    and c: "safe_char c"
    by (cases "takeWhile (\<lambda>c. c \<noteq> CHR ''.'') n")
       (auto simp: safePattern_def filenameBase_takeWhile)
  then obtain r where n: "n = c # r"
    by (cases n) (auto split: if_splits)
  show "n \<noteq> []" by (simp add: n)
  from c show "\<not> isAbsolute n" using slash_not_safe by (auto simp: n)
  from c show "\<not> startsWith n ''.''" using dot_not_safe by (auto simp: n)
qed

lemma validatePath_folder_only:
  "safePattern f \<Longrightarrow> validatePath f None = Inr \<lparr>safeFolder = f, safeFilename = None\<rparr>"
  using safePattern_hd [of f] by (auto simp: validatePath_def safePattern_def)

lemma validatePath_with_filename:
  assumes "safePattern f" and "safePattern (filenameBase n)" and "\<not> includes_str n ''..''"
  shows "validatePath f (Some n) = Inr \<lparr>safeFolder = f, safeFilename = Some n\<rparr>"
proof -
  have "f \<noteq> []" using assms(1) by (simp add: safePattern_def)
  then show ?thesis
    using safePattern_hd [OF assms(1)] safePattern_base_hd [OF assms(2)] assms
    by (simp add: validatePath_def)
qed

lemma validatePath_accepts_folder:
  "validatePath f fn = Inr v \<Longrightarrow> safePattern f"
  by (auto simp: validatePath_def split: if_splits)

lemma validatePath_accepts_filename:
  "validatePath f (Some n) = Inr v \<Longrightarrow> n \<noteq> [] \<Longrightarrow>
     safePattern (filenameBase n) \<and> \<not> includes_str n ''..''"
  by (auto simp: validatePath_def split: if_splits)

lemma validatePath_result:
  "validatePath f fn = Inr v \<Longrightarrow>
     v = \<lparr>safeFolder = f, safeFilename = (if truthy fn then fn else None)\<rparr>"
  by (auto simp: validatePath_def split: if_splits)

lemma validatePath_never_FilenameRequired: "validatePath f fn \<noteq> Inl FilenameRequired"
  by (auto simp: validatePath_def)

lemmas validate_eval =
  validatePath_def safePattern_def safe_char_def safe_chars_def filenameBase_def

section \<open>Claims about validatePath\<close>

text \<open>
  C2 (as amended). A folder name matching \<open>[A-Za-z0-9_-]+\<close> is accepted. A filename is
  accepted when the part before its first period matches the grammar and the filename
  does not contain \<open>..\<close>. A folder name is rejected when it contains \<open>..\<close>, starts with a
  period, contains a path separator or any character outside the class. A filename is
  rejected when it contains \<open>..\<close>, starts with a period or a path separator, or has a
  character outside the class (a path separator among them) before its first period.
\<close>

theorem validate_accepts_and_rejects:
  "(safePattern f \<longrightarrow>
      validatePath f None = Inr \<lparr>safeFolder = f, safeFilename = None\<rparr>)
   \<and> (safePattern f \<and> safePattern (filenameBase n) \<and> \<not> includes_str n ''..'' \<longrightarrow>
      validatePath f (Some n) = Inr \<lparr>safeFolder = f, safeFilename = Some n\<rparr>)
   \<and> (includes_str f ''..'' \<or> startsWith f ''.'' \<or> CHR ''/'' \<in> set f
        \<or> (\<exists>c \<in> set f. \<not> safe_char c) \<longrightarrow>
      (\<exists>e. validatePath f fn = Inl e))
   \<and> (includes_str n ''..'' \<or> startsWith n ''.'' \<or> isAbsolute n
        \<or> CHR ''/'' \<in> set (filenameBase n)
        \<or> (\<exists>c \<in> set (filenameBase n). \<not> safe_char c) \<longrightarrow>
      (\<exists>e. validatePath f (Some n) = Inl e))"
proof (intro conjI impI)
  assume "safePattern f"
  then show "validatePath f None = Inr \<lparr>safeFolder = f, safeFilename = None\<rparr>"
    by (rule validatePath_folder_only)
next
  assume "safePattern f \<and> safePattern (filenameBase n) \<and> \<not> includes_str n ''..''"
  then show "validatePath f (Some n) = Inr \<lparr>safeFolder = f, safeFilename = Some n\<rparr>"
    by (simp add: validatePath_with_filename)
next
  assume bad: "includes_str f ''..'' \<or> startsWith f ''.'' \<or> CHR ''/'' \<in> set f
    \<or> (\<exists>c \<in> set f. \<not> safe_char c)"
  have "\<not> safePattern f"
  proof
    assume ok: "safePattern f"
    from bad safePattern_hd [OF ok] safePattern_no_slash [OF ok] ok show False
      by (auto simp: safePattern_def list_all_iff)
  qed
  then have "\<not> (\<exists>v. validatePath f fn = Inr v)"
    using validatePath_accepts_folder by blast
  then show "\<exists>e. validatePath f fn = Inl e"
    by (cases "validatePath f fn") auto
next
  assume bad: "includes_str n ''..'' \<or> startsWith n ''.'' \<or> isAbsolute n
    \<or> CHR ''/'' \<in> set (filenameBase n)
    \<or> (\<exists>c \<in> set (filenameBase n). \<not> safe_char c)"
  have "\<not> (\<exists>v. validatePath f (Some n) = Inr v)"
  proof
    assume "\<exists>v. validatePath f (Some n) = Inr v"
    then obtain v where v: "validatePath f (Some n) = Inr v" ..
    have ne: "n \<noteq> []"
      using bad by (auto simp: filenameBase_takeWhile)
    from validatePath_accepts_filename [OF v ne]
    have ok: "safePattern (filenameBase n)" and nd: "\<not> includes_str n ''..''" by auto
    from bad nd safePattern_base_hd [OF ok] safePattern_no_slash [OF ok] ok show False
      by (auto simp: safePattern_def list_all_iff)
  qed
  then show "\<exists>e. validatePath f (Some n) = Inl e"
    by (cases "validatePath f (Some n)") auto
qed

theorem validate_accepts_and_rejects_witness:
  "validatePath ''my-folder_1'' None
     = Inr \<lparr>safeFolder = ''my-folder_1'', safeFilename = None\<rparr>
   \<and> validatePath ''docs'' (Some ''report.tar.gz'')
     = Inr \<lparr>safeFolder = ''docs'', safeFilename = Some ''report.tar.gz''\<rparr>
   \<and> (\<exists>e. validatePath ''a/b'' None = Inl e)
   \<and> (\<exists>e. validatePath ''docs'' (Some ''a b.txt'') = Inl e)"
proof -
  have h1: "safePattern ''my-folder_1''"
    by (simp add: validate_eval)
  have h2: "safePattern ''docs'' \<and> safePattern (filenameBase ''report.tar.gz'')
      \<and> \<not> includes_str ''report.tar.gz'' ''..''"
    by (simp add: validate_eval)
  have h3: "CHR ''/'' \<in> set ''a/b''"
    by simp
  have h4: "\<exists>c \<in> set (filenameBase ''a b.txt''). \<not> safe_char c"
    by (simp add: validate_eval)
  show ?thesis
    using h1 h2 h3 h4
      validate_accepts_and_rejects [of "''my-folder_1''" "''x''" None]
      validate_accepts_and_rejects [of "''docs''" "''report.tar.gz''" None]
      validate_accepts_and_rejects [of "''a/b''" "''x''" None]
      validate_accepts_and_rejects [of "''docs''" "''a b.txt''" None]
    by blast
qed

text \<open>
  C2 as stated fails twice. The filename \<open>a..b\<close> matches the grammar before its first
  period and is rejected; the filename \<open>a.b/c\<close> contains a path separator and is
  accepted.
\<close>

theorem validate_grammar_counterexample:
  "safePattern ''docs'' \<and> safePattern (filenameBase ''a..b'')
   \<and> validatePath ''docs'' (Some ''a..b'') = Inl InvalidFilePath
   \<and> CHR ''/'' \<in> set ''a.b/c''
   \<and> validatePath ''docs'' (Some ''a.b/c'')
       = Inr \<lparr>safeFolder = ''docs'', safeFilename = Some ''a.b/c''\<rparr>"
  by (simp add: validate_eval)

text \<open>
  C8 (as amended). The six messages are pairwise distinct, and the error of a rejection
  is determined by its cause: each of the five errors below is returned exactly under
  the stated condition, and each is produced by some input. The sixth message,
  \<open>Filename is required\<close>, is never produced: an empty or missing filename makes
  \<open>validatePath\<close> validate the folder alone.
\<close>

theorem validate_error_messages:
  "inj message
   \<and> (validatePath f fn = Inl FolderRequired) = (f = [])
   \<and> (validatePath f fn = Inl InvalidFolderPath)
       = (f \<noteq> [] \<and> (isAbsolute f \<or> includes_str f ''..'' \<or> startsWith f ''.''))
   \<and> (validatePath f fn = Inl InvalidFolderName)
       = (f \<noteq> [] \<and> \<not> (isAbsolute f \<or> includes_str f ''..'' \<or> startsWith f ''.'')
          \<and> \<not> safePattern f)
   \<and> (validatePath f fn = Inl InvalidFilePath)
       = (safePattern f \<and> truthy fn
          \<and> (isAbsolute (str fn) \<or> includes_str (str fn) ''..'' \<or> startsWith (str fn) ''.''))
   \<and> (validatePath f fn = Inl InvalidFilename)
       = (safePattern f \<and> truthy fn
          \<and> \<not> (isAbsolute (str fn) \<or> includes_str (str fn) ''..'' \<or> startsWith (str fn) ''.'')
          \<and> \<not> safePattern (filenameBase (str fn)))
   \<and> validatePath f fn \<noteq> Inl FilenameRequired
   \<and> validatePath [] None = Inl FolderRequired
   \<and> validatePath ''../etc'' None = Inl InvalidFolderPath
   \<and> validatePath ''my folder'' None = Inl InvalidFolderName
   \<and> validatePath ''docs'' (Some ''.hidden.txt'') = Inl InvalidFilePath
   \<and> validatePath ''docs'' (Some ''a b.txt'') = Inl InvalidFilename"
proof (intro conjI)
  show "inj message"
  proof (rule injI)
    fix x y
    assume "message x = message y"
    then show "x = y" by (cases x; cases y) simp_all
  qed
  show "(validatePath f fn = Inl FolderRequired) = (f = [])"
    by (auto simp: validatePath_def)
  show "(validatePath f fn = Inl InvalidFolderPath)
       = (f \<noteq> [] \<and> (isAbsolute f \<or> includes_str f ''..'' \<or> startsWith f ''.''))"
    by (auto simp: validatePath_def)
  show "(validatePath f fn = Inl InvalidFolderName)
       = (f \<noteq> [] \<and> \<not> (isAbsolute f \<or> includes_str f ''..'' \<or> startsWith f ''.'')
          \<and> \<not> safePattern f)"
    by (auto simp: validatePath_def)
  show "(validatePath f fn = Inl InvalidFilePath)
       = (safePattern f \<and> truthy fn
          \<and> (isAbsolute (str fn) \<or> includes_str (str fn) ''..'' \<or> startsWith (str fn) ''.''))"
    using safePattern_hd [of f] by (auto simp: validatePath_def safePattern_def)
  show "(validatePath f fn = Inl InvalidFilename)
       = (safePattern f \<and> truthy fn
          \<and> \<not> (isAbsolute (str fn) \<or> includes_str (str fn) ''..'' \<or> startsWith (str fn) ''.'')
          \<and> \<not> safePattern (filenameBase (str fn)))"
    using safePattern_hd [of f] by (auto simp: validatePath_def safePattern_def)
  show "validatePath f fn \<noteq> Inl FilenameRequired"
    by (rule validatePath_never_FilenameRequired)
  show "validatePath [] None = Inl FolderRequired"
    by (simp add: validate_eval)
  show "validatePath ''../etc'' None = Inl InvalidFolderPath"
    by (simp add: validate_eval)
  show "validatePath ''my folder'' None = Inl InvalidFolderName"
    by (simp add: validate_eval)
  show "validatePath ''docs'' (Some ''.hidden.txt'') = Inl InvalidFilePath"
    by (simp add: validate_eval)
  show "validatePath ''docs'' (Some ''a b.txt'') = Inl InvalidFilename"
    by (simp add: validate_eval)
qed

text \<open>
  C8 as stated fails: no folder and filename make \<open>validatePath\<close> produce the message
  \<open>Filename is required\<close>.
\<close>

theorem validate_filename_required_counterexample:
  "\<not> (\<exists>f fn e. validatePath f fn = Inl e \<and> message e = ''Filename is required'')"
proof
  assume "\<exists>f fn e. validatePath f fn = Inl e \<and> message e = ''Filename is required''"
  then obtain f fn e where r: "validatePath f fn = Inl e"
    and m: "message e = ''Filename is required''" by blast
  from m have "e = FilenameRequired" by (cases e) simp_all
  with r validatePath_never_FilenameRequired [of f fn] show False by simp
qed

text \<open>
  C9. \<open>validatePath\<close> is the identity where it accepts: the folder it returns is the
  folder it was given, a filename it returns is the filename it was given, and it
  returns no filename only when it was given none (or the empty string).
\<close>

theorem validate_identity:
  "validatePath folder filename = Inr v \<Longrightarrow>
     safeFolder v = folder
     \<and> (\<forall>s. safeFilename v = Some s \<longrightarrow> filename = Some s)
     \<and> (safeFilename v = None \<longrightarrow> \<not> truthy filename)"
  by (drule validatePath_result) (auto split: if_splits)

theorem validate_identity_witness:
  "validatePath ''docs'' (Some ''Report-1.final.txt'')
     = Inr \<lparr>safeFolder = ''docs'', safeFilename = Some ''Report-1.final.txt''\<rparr>
   \<and> safeFolder \<lparr>safeFolder = ''docs'', safeFilename = Some ''Report-1.final.txt''\<rparr>
     = ''docs''
   \<and> validatePath ''docs'' None = Inr \<lparr>safeFolder = ''docs'', safeFilename = None\<rparr>"
proof -
  have h: "validatePath ''docs'' (Some ''Report-1.final.txt'')
     = Inr \<lparr>safeFolder = ''docs'', safeFilename = Some ''Report-1.final.txt''\<rparr>"
    by (simp add: validate_eval)
  have h': "validatePath ''docs'' None = Inr \<lparr>safeFolder = ''docs'', safeFilename = None\<rparr>"
    by (simp add: validate_eval)
  show ?thesis
    using h h' validate_identity [OF h] validate_identity [OF h'] by simp
qed

section \<open>Paths and the file system\<close>

text \<open>
  The handlers of src/routes.js reach the disk through the \<open>path\<close> module of Node.js
  and through \<open>fs-extra\<close>. Neither is code of the repository; this section models the
  functions the handlers call, after their documentation. The state of the service is
  the directory tree below its working directory, which holds the two roots \<open>public\<close>
  and \<open>private\<close>. File contents are bytes; modification times are left out. The
  disk is a Linux file system with room to write and with every permission granted,
  without links: a call fails for what is at its path or for the path itself, and for
  nothing else.
\<close>

subsection \<open>path.join\<close>

text \<open>
  A path is kept as its components, with a flag for a trailing separator, rather than
  as the string that spells them. \<open>path.join\<close> drops empty arguments, joins the others
  with \<open>/\<close> and normalises: empty components and \<open>.\<close> disappear, \<open>..\<close> removes the
  component before it (or stays, at the start of a relative path), and a trailing
  separator is kept. Every path the handlers build starts with the constant \<open>public\<close>
  or \<open>private\<close>, so all paths here are relative to the working directory.
\<close>

datatype fpath = FPath (segs: "string list") (slash: bool)

fun join_slash :: "string list \<Rightarrow> string" where
  "join_slash [] = []"
| "join_slash [a] = a"
| "join_slash (a # b # r) = a @ ''/'' @ join_slash (b # r)"

text \<open>One step of the normalisation; the components seen so far are kept in reverse.\<close>

fun norm_step :: "string list \<Rightarrow> string \<Rightarrow> string list" where
  "norm_step acc seg =
     (if seg = [] \<or> seg = ''.'' then acc
      else if seg = ''..'' then
        (case acc of
           [] \<Rightarrow> [''..'']
         | a # as \<Rightarrow> if a = ''..'' then ''..'' # a # as else as)
      else seg # acc)"

definition normalize_segs :: "string list \<Rightarrow> string list" where
  "normalize_segs ss = rev (foldl norm_step [] ss)"

definition path_join :: "string list \<Rightarrow> fpath" where
  "path_join args =
     (let joined = join_slash (filter (\<lambda>a. a \<noteq> []) args)
      in FPath (normalize_segs (split_on CHR ''/'' joined))
               (joined \<noteq> [] \<and> last joined = CHR ''/''))"

text \<open>\<open>path.dirname\<close> of a relative path with at least one component.\<close>

definition dirname :: "fpath \<Rightarrow> fpath" where
  "dirname p = FPath (butlast (segs p)) False"

subsection \<open>The directory tree\<close>

type_synonym bytes = "8 word list"

text \<open>
  A directory lists its entries by name. Lookup takes the first entry of a name,
  \<^const>\<open>AList.update\<close> replaces it in place or appends a new entry, and
  \<^const>\<open>AList.delete\<close> removes every entry of the name.
\<close>

datatype node = File bytes | Dir "(string \<times> node) list"

text \<open>
  The failures of a file system call. \<open>ERR_INVALID_ARG_VALUE\<close> is the \<open>TypeError\<close>
  that every function of the \<open>fs\<close> module of Node.js throws, before it reaches the
  disk, for a path with a NUL byte.
\<close>

datatype fs_error =
    ENOENT
  | ENOTDIR
  | EISDIR
  | EEXIST
  | ENAMETOOLONG
  | ERR_INVALID_ARG_VALUE
  | SameFile
  | DirOverNonDir
  | NonDirOverDir
  | IntoItself

fun is_dir :: "node \<Rightarrow> bool" where
  "is_dir (Dir es) = True"
| "is_dir (File b) = False"

subsection \<open>Names and paths the disk refuses\<close>

text \<open>
  The limits of Linux: a name in a directory has at most \<open>NAME_MAX\<close> bytes, and a path
  handed to a system call has fewer than \<open>PATH_MAX\<close> bytes. A string stands for the
  bytes of its UTF-8 encoding, which is what the disk sees; the tests of
  \<open>validatePath\<close> give the same answer on these bytes as on the characters of the
  JavaScript string.
\<close>

definition NAME_MAX :: nat where
  "NAME_MAX = 255"

definition PATH_MAX :: nat where
  "PATH_MAX = 4096"

definition name_ok :: "string \<Rightarrow> bool" where
  "name_ok s = (CHR 0x00 \<notin> set s \<and> length s \<le> NAME_MAX)"

text \<open>
  The entry of a name in a directory. No directory holds a name that is not
  \<^const>\<open>name_ok\<close>; an entry of such a name in the list is not part of the disk.
\<close>

definition dir_entry :: "(string \<times> node) list \<Rightarrow> string \<Rightarrow> node option" where
  "dir_entry es s = (if name_ok s then map_of es s else None)"

text \<open>The error of looking up a name that has no entry.\<close>

definition lookup_error :: "string \<Rightarrow> fs_error" where
  "lookup_error s =
     (if CHR 0x00 \<in> set s then ERR_INVALID_ARG_VALUE
      else if NAME_MAX < length s then ENAMETOOLONG
      else ENOENT)"

text \<open>The string a path spells, and the check every call makes before it walks the tree.\<close>

definition path_string :: "fpath \<Rightarrow> string" where
  "path_string p =
     (if segs p = [] then ''.'' else join_slash (segs p)) @ (if slash p then ''/'' else [])"

definition path_error :: "fpath \<Rightarrow> fs_error option" where
  "path_error p =
     (if CHR 0x00 \<in> set (path_string p) then Some ERR_INVALID_ARG_VALUE
      else if PATH_MAX \<le> length (path_string p) then Some ENAMETOOLONG
      else None)"

subsection \<open>The calls of fs-extra\<close>

text \<open>
  Path resolution from the working directory, component by component: \<open>ENOENT\<close> when a
  component is missing, \<open>ENOTDIR\<close> when a component that must be a directory is a
  file, \<open>ENAMETOOLONG\<close> when a component is longer than a name can be.
\<close>

fun stat_segs :: "string list \<Rightarrow> node \<Rightarrow> fs_error + node" where
  "stat_segs [] n = Inr n"
| "stat_segs (s # p) (File b) = Inl ENOTDIR"
| "stat_segs (s # p) (Dir es) =
     (case dir_entry es s of
        None \<Rightarrow> Inl (lookup_error s)
      | Some c \<Rightarrow> stat_segs p c)"

text \<open>\<open>fs.stat\<close>: a path with a trailing separator must resolve to a directory.\<close>

definition stat :: "fpath \<Rightarrow> node \<Rightarrow> fs_error + node" where
  "stat p fs =
     (case path_error p of
        Some e \<Rightarrow> Inl e
      | None \<Rightarrow>
          (case stat_segs (segs p) fs of
             Inl e \<Rightarrow> Inl e
           | Inr n \<Rightarrow> if slash p \<and> \<not> is_dir n then Inl ENOTDIR else Inr n))"

text \<open>The node at a path, if the path resolves.\<close>

definition node_at :: "string list \<Rightarrow> node \<Rightarrow> node option" where
  "node_at p fs = (case stat_segs p fs of Inl e \<Rightarrow> None | Inr n \<Rightarrow> Some n)"

text \<open>\<open>fs.pathExists\<close>: whether \<open>fs.access\<close> succeeds.\<close>

definition pathExists :: "fpath \<Rightarrow> node \<Rightarrow> bool" where
  "pathExists p fs = (case stat p fs of Inl e \<Rightarrow> False | Inr n \<Rightarrow> True)"

text \<open>
  \<open>fs.ensureDir\<close>, which is \<open>fs.mkdir\<close> with \<open>recursive: true\<close>: creates the directory
  and the missing directories above it. It fails where a file is in the way or a name
  is too long; the directories above that point which it had to create stay. The
  result is the error, if any, and the tree as the call leaves it.
\<close>

fun mkdirs :: "string list \<Rightarrow> node \<Rightarrow> fs_error option \<times> node" where
  "mkdirs [] (Dir es) = (None, Dir es)"
| "mkdirs [] (File b) = (Some EEXIST, File b)"
| "mkdirs (s # p) (File b) = (Some ENOTDIR, File b)"
| "mkdirs (s # p) (Dir es) =
     (if \<not> name_ok s then (Some (lookup_error s), Dir es)
      else (case mkdirs p (case dir_entry es s of None \<Rightarrow> Dir [] | Some c \<Rightarrow> c) of
              (r, c') \<Rightarrow> (r, Dir (AList.update s c' es))))"

definition ensureDir :: "fpath \<Rightarrow> node \<Rightarrow> fs_error option \<times> node" where
  "ensureDir p fs =
     (case path_error p of
        Some e \<Rightarrow> (Some e, fs)
      | None \<Rightarrow> mkdirs (segs p) fs)"

text \<open>
  \<open>fs.writeFile\<close>: creates the file or replaces its contents. The directory of the file
  must exist, the name must be one a directory can hold, and the path must not name a
  directory.
\<close>

fun write_at :: "string list \<Rightarrow> bytes \<Rightarrow> node \<Rightarrow> fs_error + node" where
  "write_at [] d (File b) = Inr (File d)"
| "write_at [] d (Dir es) = Inl EISDIR"
| "write_at (s # p) d (File b) = Inl ENOTDIR"
| "write_at (s # p) d (Dir es) =
     (case dir_entry es s of
        None \<Rightarrow>
          if p = [] \<and> name_ok s then Inr (Dir (AList.update s (File d) es))
          else Inl (lookup_error s)
      | Some c \<Rightarrow>
          (case write_at p d c of
             Inl e \<Rightarrow> Inl e
           | Inr c' \<Rightarrow> Inr (Dir (AList.update s c' es))))"

definition writeFile :: "fpath \<Rightarrow> bytes \<Rightarrow> node \<Rightarrow> fs_error + node" where
  "writeFile p d fs =
     (case path_error p of
        Some e \<Rightarrow> Inl e
      | None \<Rightarrow> if slash p then Inl EISDIR else write_at (segs p) d fs)"

text \<open>Reading a file back: its bytes, if the path names a regular file.\<close>

definition readFile :: "fpath \<Rightarrow> node \<Rightarrow> bytes option" where
  "readFile p fs = (case stat p fs of Inr (File b) \<Rightarrow> Some b | _ \<Rightarrow> None)"

text \<open>
  \<open>fs.remove\<close>: removes a file, or a directory with everything below it; succeeds when
  nothing is there.
\<close>

fun remove_at :: "string list \<Rightarrow> node \<Rightarrow> node" where
  "remove_at [] n = n"
| "remove_at (s # p) (File b) = File b"
| "remove_at (s # p) (Dir es) =
     (if p = [] then (if name_ok s then Dir (AList.delete s es) else Dir es)
      else (case dir_entry es s of
              None \<Rightarrow> Dir es
            | Some c \<Rightarrow> Dir (AList.update s (remove_at p c) es)))"

definition remove :: "fpath \<Rightarrow> node \<Rightarrow> fs_error + node" where
  "remove p fs =
     (case stat p fs of
        Inl e \<Rightarrow> if e = ENOENT then Inr fs else Inl e
      | Inr n \<Rightarrow> Inr (remove_at (segs p) fs))"

text \<open>Linking a node under a new name; the directory above must exist.\<close>

fun put_at :: "string list \<Rightarrow> node \<Rightarrow> node \<Rightarrow> fs_error + node" where
  "put_at [] x n = Inl EEXIST"
| "put_at (s # p) x (File b) = Inl ENOTDIR"
| "put_at (s # p) x (Dir es) =
     (if p = [] then
        (if name_ok s then Inr (Dir (AList.update s x es)) else Inl (lookup_error s))
      else (case dir_entry es s of
              None \<Rightarrow> Inl (lookup_error s)
            | Some c \<Rightarrow>
                (case put_at p x c of
                   Inl e \<Rightarrow> Inl e
                 | Inr c' \<Rightarrow> Inr (Dir (AList.update s c' es)))))"

text \<open>
  \<open>fs.rename\<close>, called once the destination has been removed: the source must still be
  there, and a file cannot take a name with a trailing separator.
\<close>

definition rename_to :: "fpath \<Rightarrow> fpath \<Rightarrow> node \<Rightarrow> fs_error + node" where
  "rename_to src dest fs =
     (case stat src fs of
        Inl e \<Rightarrow> Inl e
      | Inr x \<Rightarrow>
          (case path_error dest of
             Some e \<Rightarrow> Inl e
           | None \<Rightarrow>
               if slash dest \<and> \<not> is_dir x then Inl ENOTDIR
               else put_at (segs dest) x (remove_at (segs src) fs)))"

text \<open>
  \<open>fs.move(src, dest, { overwrite: true })\<close> of fs-extra, as versions 10 and 11
  document it. It stats both paths (a missing
  destination is fine, any other failure is not) and refuses to move a path onto
  itself, a directory onto a file, a file onto a directory, and a directory into
  itself; then it creates the directory of the destination, removes the destination and
  renames. The tree has no links, so two paths name the same file exactly when their
  components are equal. The result is the error, if any, and the tree as the call
  leaves it: a failing rename comes after the destination has been removed.
\<close>

definition getStats :: "fpath \<Rightarrow> node \<Rightarrow> fs_error + node option" where
  "getStats dest fs =
     (case stat dest fs of
        Inl e \<Rightarrow> if e = ENOENT then Inr None else Inl e
      | Inr n \<Rightarrow> Inr (Some n))"

definition checkPaths :: "fpath \<Rightarrow> node \<Rightarrow> fpath \<Rightarrow> node option \<Rightarrow> fs_error option" where
  "checkPaths src srcStat dest destStat =
     (if destStat \<noteq> None \<and> segs src = segs dest then Some SameFile
      else if destStat \<noteq> None \<and> is_dir srcStat \<and> \<not> is_dir (the destStat)
        then Some DirOverNonDir
      else if destStat \<noteq> None \<and> \<not> is_dir srcStat \<and> is_dir (the destStat)
        then Some NonDirOverDir
      else if is_dir srcStat \<and> prefix (segs src) (segs dest) then Some IntoItself
      else None)"

definition doRename :: "fpath \<Rightarrow> fpath \<Rightarrow> node \<Rightarrow> fs_error option \<times> node" where
  "doRename src dest fs =
     (case remove dest fs of
        Inl e \<Rightarrow> (Some e, fs)
      | Inr fs1 \<Rightarrow>
          (case rename_to src dest fs1 of
             Inl e \<Rightarrow> (Some e, fs1)
           | Inr fs2 \<Rightarrow> (None, fs2)))"

definition move :: "fpath \<Rightarrow> fpath \<Rightarrow> node \<Rightarrow> fs_error option \<times> node" where
  "move src dest fs =
     (case stat src fs of
        Inl e \<Rightarrow> (Some e, fs)
      | Inr srcStat \<Rightarrow>
          (case getStats dest fs of
             Inl e \<Rightarrow> (Some e, fs)
           | Inr destStat \<Rightarrow>
               (case checkPaths src srcStat dest destStat of
                  Some e \<Rightarrow> (Some e, fs)
                | None \<Rightarrow>
                    (case ensureDir (dirname dest) fs of
                       (Some e, fs1) \<Rightarrow> (Some e, fs1)
                     | (None, fs1) \<Rightarrow> doRename src dest fs1))))"

text \<open>\<open>fs.readdir\<close>: the names in a directory.\<close>

definition readdir :: "fpath \<Rightarrow> node \<Rightarrow> fs_error + string list" where
  "readdir p fs =
     (case stat p fs of
        Inl e \<Rightarrow> Inl e
      | Inr (File b) \<Rightarrow> Inl ENOTDIR
      | Inr (Dir es) \<Rightarrow> Inr (filter name_ok (map fst es)))"

section \<open>The route handlers (src/routes.js)\<close>

text \<open>
  A handler takes the tree and the request and returns the response with the tree it
  leaves. The first argument \<open>baseUrl\<close> is \<open>process.env.PUBLIC_URL\<close>. An exception
  thrown inside a handler's inner \<open>try\<close> block, by \<open>validatePath\<close> or by the file
  system, is answered with status 400 and the message of the exception.
\<close>

datatype visibility = Exposed | Hidden

datatype reason = Msg string | FsFailure fs_error

record body =
  r_action :: string
  r_visibility :: "visibility option"
  r_url :: "string option"
  r_folder :: "string option"
  r_file :: "string option"

record file_entry =
  e_name :: string
  e_size :: nat

record folder_entry =
  d_name :: string
  d_visibility :: visibility
  d_url :: "string option"

datatype listing = NoListing | Files "file_entry list" | Folders "folder_entry list"

datatype response = Ok body listing | Fail nat reason

text \<open>
  \<open>path.join\<close> throws a \<open>TypeError\<close> when an argument is not a string; the handlers
  reach it with an undefined filename when \<open>validatePath\<close> returned none.
\<close>

definition path_type_error :: reason where
  "path_type_error = Msg ''The \"path\" argument must be of type string. Received undefined''"

definition publicDir :: string where
  "publicDir = ''public''"

definition privateDir :: string where
  "privateDir = ''private''"

subsection \<open>POST /upload\<close>

text \<open>Lines 55 to 88: validation, \<open>ensureDir\<close>, \<open>writeFile\<close> and the response.\<close>

definition storeFile ::
  "string \<Rightarrow> node \<Rightarrow> string \<Rightarrow> string \<Rightarrow> bytes \<Rightarrow> bool \<Rightarrow> response \<times> node" where
  "storeFile baseUrl fs folder filename fileData expose =
     (case validatePath folder (Some filename) of
        Inl err \<Rightarrow> (Fail 400 (Msg (message err)), fs)
      | Inr v \<Rightarrow>
          (let baseDir = (if expose then publicDir else privateDir);
               folderPath = path_join [baseDir, safeFolder v]
           in case ensureDir folderPath fs of
                (Some e, fs1) \<Rightarrow> (Fail 400 (FsFailure e), fs1)
              | (None, fs1) \<Rightarrow>
                  (case safeFilename v of
                     None \<Rightarrow> (Fail 400 path_type_error, fs1)
                   | Some name \<Rightarrow>
                       (case writeFile (path_join [baseDir, safeFolder v, name]) fileData fs1 of
                          Inl e \<Rightarrow> (Fail 400 (FsFailure e), fs1)
                        | Inr fs2 \<Rightarrow>
                            (Ok \<lparr>r_action = ''file_uploaded'',
                                 r_visibility = Some (if expose then Exposed else Hidden),
                                 r_url = (if expose
                                          then Some (buildPublicUrl baseUrl (safeFolder v) (Some name))
                                          else None),
                                 r_folder = Some (safeFolder v),
                                 r_file = Some name\<rparr> NoListing, fs2)))))"

text \<open>
  The two request formats. A binary upload names folder, filename and exposure in
  headers. A JSON upload carries a base64 text; \<open>j_decoded\<close> is the value of
  \<open>Buffer.from(base64, 'base64')\<close> for it, and \<open>j_expose\<close> the truthiness of the
  \<open>expose\<close> field.
\<close>

datatype upload_request =
    OctetStream (x_folder: "string option") (x_filename: "string option")
      (x_expose: "string option") (x_body: bytes)
  | JsonUpload (j_folder: "string option") (j_filename: "string option")
      (j_base64: "string option") (j_decoded: bytes) (j_expose: bool)

fun upload :: "string \<Rightarrow> node \<Rightarrow> upload_request \<Rightarrow> response \<times> node" where
  "upload baseUrl fs (OctetStream folder filename expose fileData) =
     (if \<not> truthy folder \<or> \<not> truthy filename
      then (Fail 400 (Msg ''Missing required headers: X-Folder, X-Filename''), fs)
      else storeFile baseUrl fs (str folder) (str filename) fileData (expose = Some ''true''))"
| "upload baseUrl fs (JsonUpload folder filename base64 fileData expose) =
     (if \<not> truthy folder \<or> \<not> truthy filename \<or> \<not> truthy base64
      then (Fail 400 (Msg ''Missing required fields: folder, filename, base64''), fs)
      else storeFile baseUrl fs (str folder) (str filename) fileData expose)"

subsection \<open>POST /mkdir\<close>

definition mkdir :: "string \<Rightarrow> node \<Rightarrow> string option \<Rightarrow> bool \<Rightarrow> response \<times> node" where
  "mkdir baseUrl fs folder expose =
     (if \<not> truthy folder then (Fail 400 (Msg ''Folder name is required''), fs)
      else (case validatePath (str folder) None of
              Inl err \<Rightarrow> (Fail 400 (Msg (message err)), fs)
            | Inr v \<Rightarrow>
                (let baseDir = (if expose then publicDir else privateDir);
                     folderPath = path_join [baseDir, safeFolder v]
                 in case ensureDir folderPath fs of
                      (Some e, fs1) \<Rightarrow> (Fail 400 (FsFailure e), fs1)
                    | (None, fs1) \<Rightarrow>
                        (Ok \<lparr>r_action = ''folder_created'',
                             r_visibility = Some (if expose then Exposed else Hidden),
                             r_url = (if expose
                                      then Some (buildPublicUrl baseUrl (safeFolder v) None)
                                      else None),
                             r_folder = Some (safeFolder v),
                             r_file = None\<rparr> NoListing, fs1))))"

subsection \<open>DELETE /delete/:folder/:filename?\<close>

definition deleteFile :: "node \<Rightarrow> string \<Rightarrow> string option \<Rightarrow> response \<times> node" where
  "deleteFile fs folder filename =
     (case validatePath folder filename of
        Inl err \<Rightarrow> (Fail 400 (Msg (message err)), fs)
      | Inr v \<Rightarrow>
          (case safeFilename v of
             None \<Rightarrow> (Fail 400 path_type_error, fs)
           | Some name \<Rightarrow>
               (let publicPath = path_join [publicDir, safeFolder v, name];
                    privatePath = path_join [privateDir, safeFolder v, name];
                    filePath = (if pathExists publicPath fs then Some publicPath
                                else if pathExists privatePath fs then Some privatePath
                                else None)
                in case filePath of
                     None \<Rightarrow> (Fail 404 (Msg ''File not found''), fs)
                   | Some target \<Rightarrow>
                       (case remove target fs of
                          Inl e \<Rightarrow> (Fail 400 (FsFailure e), fs)
                        | Inr fs1 \<Rightarrow>
                            (Ok \<lparr>r_action = ''file_deleted'',
                                 r_visibility = Some Hidden,
                                 r_url = None,
                                 r_folder = Some (safeFolder v),
                                 r_file = Some name\<rparr> NoListing, fs1)))))"

definition deleteFolder :: "node \<Rightarrow> string \<Rightarrow> response \<times> node" where
  "deleteFolder fs folder =
     (case validatePath folder None of
        Inl err \<Rightarrow> (Fail 400 (Msg (message err)), fs)
      | Inr v \<Rightarrow>
          (let publicPath = path_join [publicDir, safeFolder v];
               privatePath = path_join [privateDir, safeFolder v]
           in case (if pathExists publicPath fs
                    then (case remove publicPath fs of
                            Inl e \<Rightarrow> Inl e
                          | Inr fs1 \<Rightarrow> Inr (fs1, True))
                    else Inr (fs, False)) of
                Inl e \<Rightarrow> (Fail 400 (FsFailure e), fs)
              | Inr (fs1, found1) \<Rightarrow>
                  (case (if pathExists privatePath fs1
                         then (case remove privatePath fs1 of
                                 Inl e \<Rightarrow> Inl e
                               | Inr fs2 \<Rightarrow> Inr (fs2, True))
                         else Inr (fs1, found1)) of
                     Inl e \<Rightarrow> (Fail 400 (FsFailure e), fs1)
                   | Inr (fs2, folderExists) \<Rightarrow>
                       if \<not> folderExists then (Fail 404 (Msg ''Folder not found''), fs2)
                       else (Ok \<lparr>r_action = ''folder_deleted'',
                                 r_visibility = Some Hidden,
                                 r_url = None,
                                 r_folder = Some (safeFolder v),
                                 r_file = None\<rparr> NoListing, fs2))))"

definition deleteItem :: "node \<Rightarrow> string \<Rightarrow> string option \<Rightarrow> response \<times> node" where
  "deleteItem fs folder filename =
     (if truthy filename then deleteFile fs folder filename else deleteFolder fs folder)"

subsection \<open>POST /expose/:folder and POST /unexpose/:folder\<close>

definition expose_folder :: "string \<Rightarrow> node \<Rightarrow> string \<Rightarrow> response \<times> node" where
  "expose_folder baseUrl fs folder =
     (case validatePath folder None of
        Inl err \<Rightarrow> (Fail 400 (Msg (message err)), fs)
      | Inr v \<Rightarrow>
          (let privatePath = path_join [privateDir, safeFolder v];
               publicPath = path_join [publicDir, safeFolder v];
               done = (Ok \<lparr>r_action = ''folder_exposed'',
                           r_visibility = Some Exposed,
                           r_url = Some (buildPublicUrl baseUrl (safeFolder v) None),
                           r_folder = Some (safeFolder v),
                           r_file = None\<rparr> NoListing)
           in if pathExists privatePath fs then
                (case ensureDir (dirname publicPath) fs of
                   (Some e, fs1) \<Rightarrow> (Fail 400 (FsFailure e), fs1)
                 | (None, fs1) \<Rightarrow>
                     (case move privatePath publicPath fs1 of
                        (Some e, fs2) \<Rightarrow> (Fail 400 (FsFailure e), fs2)
                      | (None, fs2) \<Rightarrow> (done, fs2)))
              else if pathExists publicPath fs then (done, fs)
              else (Fail 404 (Msg ''Folder not found''), fs)))"

definition unexpose_folder :: "node \<Rightarrow> string \<Rightarrow> response \<times> node" where
  "unexpose_folder fs folder =
     (case validatePath folder None of
        Inl err \<Rightarrow> (Fail 400 (Msg (message err)), fs)
      | Inr v \<Rightarrow>
          (let publicPath = path_join [publicDir, safeFolder v];
               privatePath = path_join [privateDir, safeFolder v];
               done = (Ok \<lparr>r_action = ''folder_unexposed'',
                           r_visibility = Some Hidden,
                           r_url = None,
                           r_folder = Some (safeFolder v),
                           r_file = None\<rparr> NoListing)
           in if pathExists publicPath fs then
                (case ensureDir (dirname privatePath) fs of
                   (Some e, fs1) \<Rightarrow> (Fail 400 (FsFailure e), fs1)
                 | (None, fs1) \<Rightarrow>
                     (case move publicPath privatePath fs1 of
                        (Some e, fs2) \<Rightarrow> (Fail 400 (FsFailure e), fs2)
                      | (None, fs2) \<Rightarrow> (done, fs2)))
              else if pathExists privatePath fs then (done, fs)
              else (Fail 404 (Msg ''Folder not found''), fs)))"

subsection \<open>PATCH /rename\<close>

definition renameFile ::
  "string \<Rightarrow> node \<Rightarrow> string \<Rightarrow> string \<Rightarrow> string \<Rightarrow> response \<times> node" where
  "renameFile baseUrl fs folder filename newName =
     (case validatePath folder (Some filename) of
        Inl err \<Rightarrow> (Fail 400 (Msg (message err)), fs)
      | Inr v \<Rightarrow>
          (case validatePath folder (Some newName) of
             Inl err \<Rightarrow> (Fail 400 (Msg (message err)), fs)
           | Inr v' \<Rightarrow>
               (case safeFilename v of
                  None \<Rightarrow> (Fail 400 path_type_error, fs)
                | Some name \<Rightarrow>
                    (let publicOldPath = path_join [publicDir, safeFolder v, name];
                         privateOldPath = path_join [privateDir, safeFolder v, name];
                         found = (if pathExists publicOldPath fs then Some (publicOldPath, True)
                                  else if pathExists privateOldPath fs
                                    then Some (privateOldPath, False)
                                  else None)
                     in case found of
                          None \<Rightarrow> (Fail 404 (Msg ''File not found''), fs)
                        | Some (oldPath, isExposed) \<Rightarrow>
                            (case safeFilename v' of
                               None \<Rightarrow> (Fail 400 path_type_error, fs)
                             | Some safeNewName \<Rightarrow>
                                 (let baseDir = (if isExposed then publicDir else privateDir);
                                      newPath = path_join [baseDir, safeFolder v, safeNewName]
                                  in case move oldPath newPath fs of
                                       (Some e, fs1) \<Rightarrow> (Fail 400 (FsFailure e), fs1)
                                     | (None, fs1) \<Rightarrow>
                                         (Ok \<lparr>r_action = ''renamed'',
                                              r_visibility =
                                                Some (if isExposed then Exposed else Hidden),
                                              r_url =
                                                (if isExposed
                                                 then Some (buildPublicUrl baseUrl (safeFolder v)
                                                              (Some safeNewName))
                                                 else None),
                                              r_folder = Some (safeFolder v),
                                              r_file = Some safeNewName\<rparr> NoListing, fs1)))))))"

definition renameFolder ::
  "string \<Rightarrow> node \<Rightarrow> string \<Rightarrow> string \<Rightarrow> response \<times> node" where
  "renameFolder baseUrl fs folder newName =
     (case validatePath folder None of
        Inl err \<Rightarrow> (Fail 400 (Msg (message err)), fs)
      | Inr v \<Rightarrow>
          (case validatePath newName None of
             Inl err \<Rightarrow> (Fail 400 (Msg (message err)), fs)
           | Inr v' \<Rightarrow>
               (let publicOldPath = path_join [publicDir, safeFolder v];
                    privateOldPath = path_join [privateDir, safeFolder v];
                    found = (if pathExists publicOldPath fs then Some (publicOldPath, True)
                             else if pathExists privateOldPath fs
                               then Some (privateOldPath, False)
                             else None)
                in case found of
                     None \<Rightarrow> (Fail 404 (Msg ''Folder not found''), fs)
                   | Some (oldPath, isExposed) \<Rightarrow>
                       (let baseDir = (if isExposed then publicDir else privateDir);
                            newPath = path_join [baseDir, safeFolder v']
                        in case move oldPath newPath fs of
                             (Some e, fs1) \<Rightarrow> (Fail 400 (FsFailure e), fs1)
                           | (None, fs1) \<Rightarrow>
                               (Ok \<lparr>r_action = ''renamed'',
                                    r_visibility = Some (if isExposed then Exposed else Hidden),
                                    r_url =
                                      (if isExposed
                                       then Some (buildPublicUrl baseUrl (safeFolder v') None)
                                       else None),
                                    r_folder = Some (safeFolder v'),
                                    r_file = None\<rparr> NoListing, fs1)))))"

definition renameItem ::
  "string \<Rightarrow> node \<Rightarrow> string option \<Rightarrow> string option \<Rightarrow> string option \<Rightarrow> string option
     \<Rightarrow> response \<times> node" where
  "renameItem baseUrl fs type folder filename newName =
     (if \<not> truthy type \<or> \<not> truthy folder \<or> \<not> truthy newName
        then (Fail 400 (Msg ''Missing required fields: type, folder, newName''), fs)
      else if type \<noteq> Some ''file'' \<and> type \<noteq> Some ''folder''
        then (Fail 400 (Msg ''Type must be \"file\" or \"folder\"''), fs)
      else if type = Some ''file'' \<and> \<not> truthy filename
        then (Fail 400 (Msg ''Filename is required when type is \"file\"''), fs)
      else if type = Some ''file''
        then renameFile baseUrl fs (str folder) (str filename) (str newName)
      else renameFolder baseUrl fs (str folder) (str newName))"

subsection \<open>GET /list/:folder\<close>

text \<open>
  \<open>path.join(dir, name)\<close> for a name that \<open>readdir\<close> returned: a directory entry is a
  single component.
\<close>

definition path_child :: "fpath \<Rightarrow> string \<Rightarrow> fpath" where
  "path_child dir name = FPath (segs dir @ [name]) False"

text \<open>
  The \<open>Promise.all\<close> over the names: an entry for a regular file, \<open>null\<close> for anything
  else, and the first failure of \<open>fs.stat\<close> if there is one.
\<close>

fun fileDetails :: "fpath \<Rightarrow> node \<Rightarrow> string list \<Rightarrow> fs_error + file_entry option list" where
  "fileDetails dir fs [] = Inr []"
| "fileDetails dir fs (file # files) =
     (case stat (path_child dir file) fs of
        Inl e \<Rightarrow> Inl e
      | Inr stats \<Rightarrow>
          (case fileDetails dir fs files of
             Inl e \<Rightarrow> Inl e
           | Inr rest \<Rightarrow>
               Inr ((case stats of
                       File b \<Rightarrow> Some \<lparr>e_name = file, e_size = length b\<rparr>
                     | Dir es \<Rightarrow> None) # rest)))"

text \<open>\<open>Array.prototype.filter(Boolean)\<close> on a list of objects and \<open>null\<close>s.\<close>

fun filterBoolean :: "'a option list \<Rightarrow> 'a list" where
  "filterBoolean [] = []"
| "filterBoolean (None # xs) = filterBoolean xs"
| "filterBoolean (Some x # xs) = x # filterBoolean xs"

definition listFolder :: "string \<Rightarrow> node \<Rightarrow> string \<Rightarrow> response \<times> node" where
  "listFolder baseUrl fs folder =
     (case validatePath folder None of
        Inl err \<Rightarrow> (Fail 400 (Msg (message err)), fs)
      | Inr v \<Rightarrow>
          (let publicPath = path_join [publicDir, safeFolder v];
               privatePath = path_join [privateDir, safeFolder v];
               found = (if pathExists publicPath fs then Some (publicPath, True)
                        else if pathExists privatePath fs then Some (privatePath, False)
                        else None)
           in case found of
                None \<Rightarrow> (Fail 404 (Msg ''Folder not found''), fs)
              | Some (folderPath, isExposed) \<Rightarrow>
                  (case readdir folderPath fs of
                     Inl e \<Rightarrow> (Fail 400 (FsFailure e), fs)
                   | Inr files \<Rightarrow>
                       (case fileDetails folderPath fs files of
                          Inl e \<Rightarrow> (Fail 400 (FsFailure e), fs)
                        | Inr details \<Rightarrow>
                            (Ok \<lparr>r_action = ''folder_listed'',
                                 r_visibility = Some (if isExposed then Exposed else Hidden),
                                 r_url =
                                   (if isExposed
                                    then Some (buildPublicUrl baseUrl (safeFolder v) None)
                                    else None),
                                 r_folder = Some (safeFolder v),
                                 r_file = None\<rparr> (Files (filterBoolean details)), fs)))))"

subsection \<open>GET /list\<close>

text \<open>The two \<open>Promise.all\<close> blocks: an entry for a directory, \<open>null\<close> for a file.\<close>

fun folderDetails ::
  "(string \<Rightarrow> folder_entry) \<Rightarrow> fpath \<Rightarrow> node \<Rightarrow> string list
     \<Rightarrow> fs_error + folder_entry option list" where
  "folderDetails entry dir fs [] = Inr []"
| "folderDetails entry dir fs (item # items) =
     (case stat (path_child dir item) fs of
        Inl e \<Rightarrow> Inl e
      | Inr stats \<Rightarrow>
          (case folderDetails entry dir fs items of
             Inl e \<Rightarrow> Inl e
           | Inr rest \<Rightarrow> Inr ((if is_dir stats then Some (entry item) else None) # rest)))"

definition publicEntry :: "string \<Rightarrow> string \<Rightarrow> folder_entry" where
  "publicEntry baseUrl item =
     \<lparr>d_name = item, d_visibility = Exposed, d_url = Some (buildPublicUrl baseUrl item None)\<rparr>"

definition privateEntry :: "string \<Rightarrow> folder_entry" where
  "privateEntry item = \<lparr>d_name = item, d_visibility = Hidden, d_url = None\<rparr>"

text \<open>
  The \<open>Map\<close> that removes duplicates: keys keep the order of their first insertion, and
  \<open>set\<close> on a key that is present replaces its value in place.
\<close>

definition folderMap_step ::
  "(string \<times> folder_entry) list \<Rightarrow> folder_entry \<Rightarrow> (string \<times> folder_entry) list" where
  "folderMap_step m folder =
     (if map_of m (d_name folder) = None \<or> d_visibility folder = Exposed
      then AList.update (d_name folder) folder m
      else m)"

definition folderMap :: "folder_entry list \<Rightarrow> (string \<times> folder_entry) list" where
  "folderMap allFolders = foldl folderMap_step [] allFolders"

definition internal_error :: response where
  "internal_error = Fail 500 (Msg ''Internal server error'')"

definition listRoot :: "string \<Rightarrow> node \<Rightarrow> response \<times> node" where
  "listRoot baseUrl fs =
     (let publicPath = path_join [publicDir];
          privatePath = path_join [privateDir]
      in case ensureDir publicPath fs of
           (Some e, fs1) \<Rightarrow> (internal_error, fs1)
         | (None, fs1) \<Rightarrow>
             (case ensureDir privatePath fs1 of
                (Some e, fs2) \<Rightarrow> (internal_error, fs2)
              | (None, fs2) \<Rightarrow>
                  (case readdir publicPath fs2 of
                     Inl e \<Rightarrow> (internal_error, fs2)
                   | Inr publicItems \<Rightarrow>
                       (case readdir privatePath fs2 of
                          Inl e \<Rightarrow> (internal_error, fs2)
                        | Inr privateItems \<Rightarrow>
                            (case folderDetails (publicEntry baseUrl) publicPath fs2 publicItems of
                               Inl e \<Rightarrow> (internal_error, fs2)
                             | Inr publicFolders \<Rightarrow>
                                 (case folderDetails privateEntry privatePath fs2 privateItems of
                                    Inl e \<Rightarrow> (internal_error, fs2)
                                  | Inr privateFolders \<Rightarrow>
                                      (let allFolders =
                                             filterBoolean (publicFolders @ privateFolders);
                                           folderList = map snd (folderMap allFolders)
                                       in (Ok \<lparr>r_action = ''root_listed'',
                                               r_visibility = None,
                                               r_url = None,
                                               r_folder = None,
                                               r_file = None\<rparr> (Folders folderList), fs2))))))))"

section \<open>Properties of path.join\<close>

text \<open>
  The components a filename contributes to a joined path: the pieces between its
  separators, without the empty ones and without \<open>.\<close>.
\<close>

definition name_segs :: "string \<Rightarrow> string list" where
  "name_segs n = filter (\<lambda>s. s \<noteq> [] \<and> s \<noteq> ''.'') (split_on CHR ''/'' n)"

lemma split_on_no_sep: "sep \<notin> set a \<Longrightarrow> split_on sep a = [a]"
  by (induction a) auto

lemma split_on_append:
  "split_on sep (a @ sep # b) = split_on sep a @ split_on sep b"
proof (induction a)
  case Nil
  show ?case by simp
next
  case (Cons c cs)
  obtain p ps where sp: "split_on sep cs = p # ps"
    using split_on_not_Nil [of sep cs] by (cases "split_on sep cs") auto
  with Cons show ?case by simp
qed

lemma dotdot_in_split_on:
  "''..'' \<in> set (split_on sep n) \<Longrightarrow> includes_str n ''..''"
proof (induction n)
  case Nil
  then show ?case by simp
next
  case (Cons c cs)
  obtain p ps where sp: "split_on sep cs = p # ps"
    using split_on_not_Nil [of sep cs] by (cases "split_on sep cs") auto
  show ?case
  proof (cases "c = sep")
    case True
    with Cons show ?thesis by auto
  next
    case False
    with Cons.prems sp have "''..'' = c # p \<or> ''..'' \<in> set ps" by auto
    then show ?thesis
    proof
      assume e: "''..'' = c # p"
      then have p: "p = ''.''" and c: "c = CHR ''.''" by auto
      have "hd (split_on sep cs) = takeWhile (\<lambda>x. x \<noteq> sep) cs" by (rule hd_split_on)
      with sp p have "takeWhile (\<lambda>x. x \<noteq> sep) cs = ''.''" by simp
      then obtain r where "cs = CHR ''.'' # r"
        by (cases cs) (auto split: if_splits)
      with c show ?thesis by simp
    next
      assume "''..'' \<in> set ps"
      with sp Cons.IH show ?thesis by simp
    qed
  qed
qed

lemma foldl_norm_step_plain:
  "''..'' \<notin> set ss \<Longrightarrow>
   foldl norm_step acc ss = rev (filter (\<lambda>s. s \<noteq> [] \<and> s \<noteq> ''.'') ss) @ acc"
  by (induction ss arbitrary: acc) auto

lemma normalize_segs_plain:
  "''..'' \<notin> set ss \<Longrightarrow> normalize_segs ss = filter (\<lambda>s. s \<noteq> [] \<and> s \<noteq> ''.'') ss"
  by (simp add: normalize_segs_def foldl_norm_step_plain)

lemma safePattern_plain:
  assumes "safePattern f"
  shows "f \<noteq> []" and "f \<noteq> ''.''" and "f \<noteq> ''..''" and "CHR ''/'' \<notin> set f"
  using assms safePattern_no_dot [OF assms] safePattern_no_slash [OF assms]
  by (auto simp: safePattern_def)

lemma root_plain:
  "r = publicDir \<or> r = privateDir \<Longrightarrow>
     r \<noteq> [] \<and> r \<noteq> ''.'' \<and> r \<noteq> ''..'' \<and> CHR ''/'' \<notin> set r"
  by (auto simp: publicDir_def privateDir_def)

lemma path_join_root:
  "r = publicDir \<or> r = privateDir \<Longrightarrow> path_join [r] = FPath [r] False"
  by (auto simp: path_join_def publicDir_def privateDir_def normalize_segs_def)

lemma path_join_folder:
  assumes r: "r = publicDir \<or> r = privateDir" and f: "safePattern f"
  shows "path_join [r, f] = FPath [r, f] False"
proof -
  note rp = root_plain [OF r]
  note fp = safePattern_plain [OF f]
  have j: "join_slash (filter (\<lambda>a. a \<noteq> []) [r, f]) = r @ CHR ''/'' # f"
    using rp fp by simp
  have s: "split_on CHR ''/'' (r @ CHR ''/'' # f) = [r, f]"
    using rp fp by (simp add: split_on_append split_on_no_sep)
  have l: "last (r @ CHR ''/'' # f) \<noteq> CHR ''/''"
    using fp by (cases f rule: rev_cases) auto
  have d: "''..'' \<notin> set [r, f]"
    using rp fp by auto
  show ?thesis
    unfolding path_join_def Let_def j s normalize_segs_plain [OF d]
    using rp fp l by simp
qed

lemma path_join_file:
  assumes r: "r = publicDir \<or> r = privateDir" and f: "safePattern f"
    and n: "n \<noteq> []" and nd: "\<not> includes_str n ''..''"
  shows "path_join [r, f, n] = FPath (r # f # name_segs n) (last n = CHR ''/'')"
proof -
  note rp = root_plain [OF r]
  note fp = safePattern_plain [OF f]
  have j: "join_slash (filter (\<lambda>a. a \<noteq> []) [r, f, n]) = r @ CHR ''/'' # (f @ CHR ''/'' # n)"
    using rp fp n by simp
  have s: "split_on CHR ''/'' (r @ CHR ''/'' # (f @ CHR ''/'' # n)) = r # f # split_on CHR ''/'' n"
    using rp fp by (simp add: split_on_append split_on_no_sep)
  have d: "''..'' \<notin> set (r # f # split_on CHR ''/'' n)"
    using rp fp nd dotdot_in_split_on [of "CHR ''/''" n] by auto
  have l: "last (r @ CHR ''/'' # (f @ CHR ''/'' # n)) = last n"
    using n by simp
  show ?thesis
    unfolding path_join_def Let_def j s l normalize_segs_plain [OF d]
    using rp fp by (simp add: name_segs_def)
qed

lemma name_segs_simple:
  "CHR ''/'' \<notin> set n \<Longrightarrow> n \<noteq> [] \<Longrightarrow> n \<noteq> ''.'' \<Longrightarrow> name_segs n = [n]"
  by (simp add: name_segs_def split_on_no_sep)

section \<open>Properties of the file system\<close>

subsection \<open>Entries and names\<close>

lemma dir_entry_Nil [simp]: "dir_entry [] s = None"
  by (simp add: dir_entry_def)

lemma dir_entry_ok: "dir_entry es s = Some c \<Longrightarrow> name_ok s"
  by (simp add: dir_entry_def split: if_splits)

lemma dir_entry_update:
  "dir_entry (AList.update k v es) s
     = (if s = k \<and> name_ok k then Some v else dir_entry es s)"
  by (simp add: dir_entry_def update_conv')

lemma dir_entry_delete:
  "dir_entry (AList.delete k es) s = (if s = k then None else dir_entry es s)"
  by (simp add: dir_entry_def delete_conv')

lemma dir_entry_update_triv: "dir_entry es s = Some c \<Longrightarrow> AList.update s c es = es"
  by (simp add: dir_entry_def update_triv split: if_splits)

lemma dir_entry_delete_triv:
  assumes "dir_entry es s = None" and "name_ok s"
  shows "AList.delete s es = es"
proof -
  from assms have "map_of es s = None" by (simp add: dir_entry_def)
  then have "s \<notin> fst ` set es" by (simp add: map_of_eq_None_iff)
  then show ?thesis by (induction es) (auto simp: AList.delete_eq)
qed

lemma dir_entry_member:
  "name_ok i \<Longrightarrow> i \<in> fst ` set es \<Longrightarrow> \<exists>c. dir_entry es i = Some c"
  by (cases "map_of es i") (auto simp: dir_entry_def map_of_eq_None_iff)

lemma dir_entry_Some_member: "dir_entry es i = Some c \<Longrightarrow> i \<in> fst ` set es"
  by (force simp: dir_entry_def split: if_splits dest: map_of_SomeD)

lemma lookup_error_ok [simp]: "name_ok s \<Longrightarrow> lookup_error s = ENOENT"
  by (simp add: lookup_error_def name_ok_def)

lemma root_names_ok [simp]: "name_ok publicDir" "name_ok privateDir"
  by (simp_all add: name_ok_def NAME_MAX_def publicDir_def privateDir_def)

lemmas node_eval = dir_entry_def name_ok_def NAME_MAX_def

subsection \<open>Resolution\<close>

lemma node_at_Nil [simp]: "node_at [] n = Some n"
  by (simp add: node_at_def)

lemma node_at_File [simp]: "node_at (s # p) (File b) = None"
  by (simp add: node_at_def)

lemma node_at_Dir [simp]:
  "node_at (s # p) (Dir es) = (case dir_entry es s of None \<Rightarrow> None | Some c \<Rightarrow> node_at p c)"
  by (simp add: node_at_def split: option.splits)

lemma stat_segs_node_at:
  "stat_segs p fs = Inr n \<longleftrightarrow> node_at p fs = Some n"
  by (auto simp: node_at_def split: sum.splits)

lemma stat_segs_ENOENT_node_at:
  "stat_segs p fs = Inl e \<Longrightarrow> node_at p fs = None"
  by (simp add: node_at_def)

lemma node_at_names_ok: "node_at p fs = Some x \<Longrightarrow> s \<in> set p \<Longrightarrow> name_ok s"
proof (induction p arbitrary: fs)
  case Nil
  then show ?case by simp
next
  case (Cons t p)
  from Cons.prems obtain es where fs: "fs = Dir es" by (cases fs) auto
  with Cons.prems obtain c where c: "dir_entry es t = Some c" and n: "node_at p c = Some x"
    by (auto split: option.splits)
  from Cons.prems(2) Cons.IH [OF n] dir_entry_ok [OF c] show ?case by auto
qed

text \<open>A path of a few components, each of them a name a directory can hold, passes the check.\<close>

lemma join_slash_ok:
  "p \<noteq> [] \<Longrightarrow> (\<And>s. s \<in> set p \<Longrightarrow> name_ok s) \<Longrightarrow>
     CHR 0x00 \<notin> set (join_slash p) \<and> length (join_slash p) < 256 * length p"
proof (induction p rule: join_slash.induct)
  case 1
  then show ?case by simp
next
  case (2 a)
  then show ?case by (simp add: name_ok_def NAME_MAX_def)
next
  case (3 a b r)
  have "CHR 0x00 \<notin> set (join_slash (b # r)) \<and> length (join_slash (b # r)) < 256 * length (b # r)"
    by (rule 3(1)) (simp_all add: 3(3))
  moreover have "name_ok a" by (rule 3(3)) simp
  ultimately show ?case by (simp add: name_ok_def NAME_MAX_def)
qed

lemma path_error_ok:
  assumes "\<And>s. s \<in> set p \<Longrightarrow> name_ok s" and "length p \<le> 15"
  shows "path_error (FPath p False) = None"
proof (cases "p = []")
  case True
  then show ?thesis by (simp add: path_error_def path_string_def PATH_MAX_def)
next
  case False
  from join_slash_ok [OF False assms(1)] assms(2) False show ?thesis
    by (simp add: path_error_def path_string_def PATH_MAX_def)
qed

lemma path_error_node_at:
  "node_at p fs = Some x \<Longrightarrow> length p \<le> 15 \<Longrightarrow> path_error (FPath p False) = None"
  using node_at_names_ok [of p fs x] by (intro path_error_ok) auto

lemma path_error_not_ENOENT [simp]: "path_error p \<noteq> Some ENOENT"
  by (simp add: path_error_def)

lemma stat_ok:
  "path_error p = None \<Longrightarrow>
     stat p fs = (case stat_segs (segs p) fs of
                    Inl e \<Rightarrow> Inl e
                  | Inr n \<Rightarrow> if slash p \<and> \<not> is_dir n then Inl ENOTDIR else Inr n)"
  by (simp add: stat_def)

lemma stat_plain:
  "path_error (FPath p False) = None \<Longrightarrow> stat (FPath p False) fs = stat_segs p fs"
  by (simp add: stat_def split: sum.splits)

lemma stat_node:
  "node_at p fs = Some x \<Longrightarrow> length p \<le> 15 \<Longrightarrow> stat (FPath p False) fs = Inr x"
  by (simp add: stat_plain path_error_node_at stat_segs_node_at)

lemma stat_Inr_node_at: "stat p fs = Inr x \<Longrightarrow> node_at (segs p) fs = Some x"
  by (auto simp: stat_def node_at_def split: sum.splits if_splits option.splits)

lemma stat_Inr_path_error: "stat p fs = Inr x \<Longrightarrow> path_error p = None"
  by (auto simp: stat_def split: option.splits)

lemma pathExists_node_at:
  "pathExists p fs \<longleftrightarrow>
     path_error p = None \<and> (\<exists>n. node_at (segs p) fs = Some n \<and> (slash p \<longrightarrow> is_dir n))"
  by (auto simp: pathExists_def stat_def node_at_def split: sum.splits option.splits)

lemma pathExists_plain [simp]:
  "length p \<le> 15 \<Longrightarrow> pathExists (FPath p False) fs \<longleftrightarrow> node_at p fs \<noteq> None"
  by (auto simp: pathExists_node_at path_error_node_at)

lemma node_at_Dir_Nil [simp]: "p \<noteq> [] \<Longrightarrow> node_at p (Dir []) = None"
  by (cases p) auto

lemma node_at_append:
  "node_at (p @ q) fs = (case node_at p fs of None \<Rightarrow> None | Some n \<Rightarrow> node_at q n)"
proof (induction p arbitrary: fs)
  case Nil
  show ?case by simp
next
  case (Cons s p)
  show ?case
    by (cases fs) (auto simp: Cons split: option.splits)
qed

subsection \<open>ensureDir\<close>

lemma mkdirs_frame:
  "\<not> prefix p q \<Longrightarrow> mkdirs q fs = (r, fs1) \<Longrightarrow> node_at p fs1 = node_at p fs"
proof (induction q arbitrary: p fs fs1 r)
  case Nil
  then show ?case by (cases fs) auto
next
  case (Cons s q)
  from Cons.prems obtain t p' where p: "p = t # p'" by (cases p) auto
  show ?case
  proof (cases fs)
    case (File b)
    with Cons.prems show ?thesis by simp
  next
    case fs: (Dir es)
    show ?thesis
    proof (cases "name_ok s")
      case False
      with Cons.prems fs show ?thesis by simp
    next
      case ok: True
      let ?c0 = "case dir_entry es s of None \<Rightarrow> Dir [] | Some c \<Rightarrow> c"
      from Cons.prems fs ok obtain c' where c': "mkdirs q ?c0 = (r, c')"
        and fs1: "fs1 = Dir (AList.update s c' es)"
        by (auto split: prod.splits)
      show ?thesis
      proof (cases "t = s")
        case False
        then show ?thesis by (simp add: p fs fs1 dir_entry_update)
      next
        case True
        with Cons.prems p have np: "\<not> prefix p' q" by simp
        then have ne: "p' \<noteq> []" by auto
        from Cons.IH [OF np c'] have "node_at p' c' = node_at p' ?c0" .
        with True ne ok show ?thesis
          by (simp add: p fs fs1 dir_entry_update split: option.splits)
      qed
    qed
  qed
qed

lemma mkdirs_makes_dir:
  "mkdirs q fs = (None, fs1) \<Longrightarrow> \<exists>es. node_at q fs1 = Some (Dir es)"
proof (induction q arbitrary: fs fs1)
  case Nil
  then show ?case by (cases fs) auto
next
  case (Cons s q)
  from Cons.prems obtain es where fs: "fs = Dir es" by (cases fs) auto
  from Cons.prems fs have ok: "name_ok s" by (auto split: if_splits)
  let ?c0 = "case dir_entry es s of None \<Rightarrow> Dir [] | Some c \<Rightarrow> c"
  from Cons.prems fs ok obtain c' where c': "mkdirs q ?c0 = (None, c')"
    and fs1: "fs1 = Dir (AList.update s c' es)"
    by (auto split: prod.splits)
  from Cons.IH [OF c'] ok show ?case
    by (simp add: fs1 dir_entry_update)
qed

lemma mkdirs_existing:
  "node_at q fs = Some (Dir ds) \<Longrightarrow> mkdirs q fs = (None, fs)"
proof (induction q arbitrary: fs)
  case Nil
  then show ?case by simp
next
  case (Cons s q)
  from Cons.prems obtain es where fs: "fs = Dir es" by (cases fs) auto
  with Cons.prems obtain c where c: "dir_entry es s = Some c" and n: "node_at q c = Some (Dir ds)"
    by (auto split: option.splits)
  from Cons.IH [OF n] c dir_entry_ok [OF c] show ?case
    by (simp add: fs dir_entry_update_triv)
qed

lemma mkdirs_root_is_dir:
  "mkdirs q fs = (None, fs1) \<Longrightarrow> is_dir fs \<and> is_dir fs1"
  by (cases q; cases fs) (auto split: prod.splits if_splits)

lemma mkdirs_succeeds:
  "is_dir fs \<Longrightarrow> (\<And>s. s \<in> set q \<Longrightarrow> name_ok s) \<Longrightarrow>
     (\<And>p x. prefix p q \<Longrightarrow> node_at p fs = Some x \<Longrightarrow> is_dir x) \<Longrightarrow>
     \<exists>fs1. mkdirs q fs = (None, fs1)"
proof (induction q arbitrary: fs)
  case Nil
  then show ?case by (cases fs) auto
next
  case (Cons s q)
  from Cons.prems(1) obtain es where fs: "fs = Dir es" by (cases fs) auto
  from Cons.prems(2) have ok: "name_ok s" by simp
  let ?c0 = "case dir_entry es s of None \<Rightarrow> Dir [] | Some c \<Rightarrow> c"
  have d: "is_dir ?c0"
  proof (cases "dir_entry es s")
    case None
    then show ?thesis by simp
  next
    case (Some c)
    with Cons.prems(3) [of "[s]" c] show ?thesis by (simp add: fs)
  qed
  have "\<exists>c'. mkdirs q ?c0 = (None, c')"
  proof (rule Cons.IH [OF d])
    fix t
    assume "t \<in> set q"
    then show "name_ok t" using Cons.prems(2) by simp
  next
    fix p x
    assume p: "prefix p q" and n: "node_at p ?c0 = Some x"
    show "is_dir x"
    proof (cases "dir_entry es s")
      case None
      with n d show ?thesis by (cases p) auto
    next
      case (Some c)
      with Cons.prems(3) [of "s # p" x] p n show ?thesis by (simp add: fs)
    qed
  qed
  with ok show ?case by (auto simp: fs)
qed

lemma ensureDir_None:
  "ensureDir p fs = (None, fs1) \<Longrightarrow> mkdirs (segs p) fs = (None, fs1)"
  by (auto simp: ensureDir_def split: option.splits)

lemma ensureDir_frame:
  assumes "\<not> prefix q (segs p)" and "ensureDir p fs = (r, fs1)"
  shows "node_at q fs1 = node_at q fs"
proof (cases "path_error p")
  case None
  with assms(2) have "mkdirs (segs p) fs = (r, fs1)" by (simp add: ensureDir_def)
  from mkdirs_frame [OF assms(1) this] show ?thesis .
next
  case (Some e)
  with assms(2) show ?thesis by (simp add: ensureDir_def)
qed

lemma ensureDir_plain:
  "path_error (FPath p False) = None \<Longrightarrow> ensureDir (FPath p False) fs = mkdirs p fs"
  by (simp add: ensureDir_def)

subsection \<open>remove\<close>

lemma remove_at_frame:
  "\<not> prefix q p \<Longrightarrow> \<not> prefix p q \<Longrightarrow> node_at p (remove_at q fs) = node_at p fs"
proof (induction q arbitrary: p fs)
  case Nil
  then show ?case by simp
next
  case (Cons s q)
  from Cons.prems obtain t p' where p: "p = t # p'" by (cases p) auto
  show ?case
  proof (cases fs)
    case (File b)
    then show ?thesis by simp
  next
    case (Dir es)
    show ?thesis
    proof (cases "t = s")
      case False
      then show ?thesis
        by (simp add: p Dir dir_entry_update dir_entry_delete split: option.splits)
    next
      case True
      with Cons.prems p have np: "\<not> prefix q p'" "\<not> prefix p' q" by simp_all
      then have ne: "q \<noteq> []" by auto
      from Cons.IH [OF np] True ne show ?thesis
        by (auto simp: p Dir dir_entry_update dest: dir_entry_ok split: option.splits)
    qed
  qed
qed

lemma remove_at_below:
  "prefix q p \<Longrightarrow> q \<noteq> [] \<Longrightarrow> node_at p (remove_at q fs) = None"
proof (induction q arbitrary: p fs)
  case Nil
  then show ?case by simp
next
  case (Cons s q)
  from Cons.prems obtain p' where p: "p = s # p'" and pp: "prefix q p'"
    by (cases p) auto
  show ?case
  proof (cases fs)
    case (File b)
    then show ?thesis by (simp add: p)
  next
    case (Dir es)
    show ?thesis
    proof (cases "q = []")
      case True
      then show ?thesis
        by (auto simp: p Dir dir_entry_delete dest: dir_entry_ok split: option.splits)
    next
      case False
      from Cons.IH [OF pp False] False show ?thesis
        by (auto simp: p Dir dir_entry_update dest: dir_entry_ok split: option.splits)
    qed
  qed
qed

lemma remove_at_missing:
  "node_at q fs = None \<Longrightarrow> remove_at q fs = fs"
proof (induction q arbitrary: fs)
  case Nil
  then show ?case by simp
next
  case (Cons s q)
  show ?case
  proof (cases fs)
    case (File b)
    then show ?thesis by simp
  next
    case (Dir es)
    show ?thesis
    proof (cases "dir_entry es s")
      case None
      then show ?thesis by (simp add: Dir dir_entry_delete_triv)
    next
      case (Some c)
      with Cons.prems Dir have n: "node_at q c = None" and ne: "q \<noteq> []"
        by (auto split: option.splits)
      from Cons.IH [OF n] Some ne show ?thesis
        by (simp add: Dir dir_entry_update_triv)
    qed
  qed
qed

lemma remove_at_root_is_dir: "is_dir (remove_at q fs) = is_dir fs"
  by (cases q; cases fs) (auto split: option.splits)

subsection \<open>rename and writeFile\<close>

lemma put_at_frame:
  "\<not> prefix q p \<Longrightarrow> \<not> prefix p q \<Longrightarrow> put_at q x fs = Inr fs1 \<Longrightarrow>
     node_at p fs1 = node_at p fs"
proof (induction q arbitrary: p fs fs1)
  case Nil
  then show ?case by simp
next
  case (Cons s q)
  from Cons.prems obtain t p' where p: "p = t # p'" by (cases p) auto
  from Cons.prems obtain es where fs: "fs = Dir es" by (cases fs) auto
  show ?case
  proof (cases "t = s")
    case False
    with Cons.prems show ?thesis
      by (auto simp: p fs dir_entry_update split: if_splits option.splits sum.splits)
  next
    case True
    with Cons.prems p have np: "\<not> prefix q p'" "\<not> prefix p' q" by simp_all
    then have ne: "q \<noteq> []" by auto
    with Cons.prems fs obtain c c' where c: "dir_entry es s = Some c"
      and c': "put_at q x c = Inr c'" and fs1: "fs1 = Dir (AList.update s c' es)"
      by (auto split: option.splits sum.splits)
    from Cons.IH [OF np c'] True c dir_entry_ok [OF c] show ?thesis
      by (simp add: p fs fs1 dir_entry_update)
  qed
qed

lemma put_at_node:
  "put_at q x fs = Inr fs1 \<Longrightarrow> node_at q fs1 = Some x"
proof (induction q arbitrary: fs fs1)
  case Nil
  then show ?case by simp
next
  case (Cons s q)
  from Cons.prems obtain es where fs: "fs = Dir es" by (cases fs) auto
  show ?case
  proof (cases "q = []")
    case True
    with Cons.prems show ?thesis
      by (auto simp: fs dir_entry_update split: if_splits)
  next
    case False
    with Cons.prems fs obtain c c' where c: "dir_entry es s = Some c"
      and c': "put_at q x c = Inr c'" and fs1: "fs1 = Dir (AList.update s c' es)"
      by (auto split: option.splits sum.splits)
    from Cons.IH [OF c'] dir_entry_ok [OF c] show ?thesis
      by (simp add: fs1 dir_entry_update)
  qed
qed

lemma put_at_succeeds:
  "q \<noteq> [] \<Longrightarrow> name_ok (last q) \<Longrightarrow> node_at (butlast q) fs = Some (Dir ds) \<Longrightarrow>
     \<exists>fs1. put_at q x fs = Inr fs1"
proof (induction q arbitrary: fs)
  case Nil
  then show ?case by simp
next
  case (Cons s q)
  show ?case
  proof (cases "q = []")
    case True
    with Cons.prems show ?thesis by simp
  next
    case False
    with Cons.prems obtain es where fs: "fs = Dir es" by (cases fs) auto
    with Cons.prems False obtain c where c: "dir_entry es s = Some c"
      and n: "node_at (butlast q) c = Some (Dir ds)"
      by (auto split: option.splits)
    from Cons.prems False have "name_ok (last q)" by simp
    from Cons.IH [OF False this n] obtain c' where "put_at q x c = Inr c'" ..
    with False c show ?thesis by (simp add: fs)
  qed
qed

lemma write_at_frame:
  "\<not> prefix q p \<Longrightarrow> \<not> prefix p q \<Longrightarrow> write_at q d fs = Inr fs1 \<Longrightarrow>
     node_at p fs1 = node_at p fs"
proof (induction q arbitrary: p fs fs1)
  case Nil
  then show ?case by simp
next
  case (Cons s q)
  from Cons.prems obtain t p' where p: "p = t # p'" by (cases p) auto
  from Cons.prems obtain es where fs: "fs = Dir es" by (cases fs) auto
  show ?case
  proof (cases "t = s")
    case False
    with Cons.prems show ?thesis
      by (auto simp: p fs dir_entry_update split: if_splits option.splits sum.splits)
  next
    case True
    with Cons.prems p have np: "\<not> prefix q p'" "\<not> prefix p' q" by simp_all
    then have ne: "q \<noteq> []" by auto
    with Cons.prems fs obtain c c' where c: "dir_entry es s = Some c"
      and c': "write_at q d c = Inr c'" and fs1: "fs1 = Dir (AList.update s c' es)"
      by (auto split: option.splits sum.splits)
    from Cons.IH [OF np c'] True c dir_entry_ok [OF c] show ?thesis
      by (simp add: p fs fs1 dir_entry_update)
  qed
qed

lemma write_at_node:
  "q \<noteq> [] \<Longrightarrow> write_at q d fs = Inr fs1 \<Longrightarrow> node_at q fs1 = Some (File d)"
proof (induction q arbitrary: fs fs1)
  case Nil
  then show ?case by simp
next
  case (Cons s q)
  from Cons.prems obtain es where fs: "fs = Dir es" by (cases fs) auto
  show ?case
  proof (cases "dir_entry es s")
    case None
    with Cons.prems show ?thesis
      by (auto simp: fs dir_entry_update split: if_splits)
  next
    case (Some c)
    with Cons.prems fs obtain c' where c': "write_at q d c = Inr c'"
      and fs1: "fs1 = Dir (AList.update s c' es)"
      by (auto split: sum.splits)
    note ok = dir_entry_ok [OF Some]
    show ?thesis
    proof (cases "q = []")
      case True
      with c' ok show ?thesis by (cases c) (auto simp: fs1 dir_entry_update)
    next
      case False
      from Cons.IH [OF False c'] ok show ?thesis by (simp add: fs1 dir_entry_update)
    qed
  qed
qed

lemma write_at_succeeds:
  "q \<noteq> [] \<Longrightarrow> name_ok (last q) \<Longrightarrow> node_at (butlast q) fs = Some (Dir ds) \<Longrightarrow>
     (\<forall>x. node_at q fs = Some x \<longrightarrow> \<not> is_dir x) \<Longrightarrow> \<exists>fs1. write_at q d fs = Inr fs1"
proof (induction q arbitrary: fs)
  case Nil
  then show ?case by simp
next
  case (Cons s q)
  from Cons.prems obtain es where fs: "fs = Dir es" by (cases fs; cases q) auto
  show ?case
  proof (cases "q = []")
    case True
    show ?thesis
    proof (cases "dir_entry es s")
      case None
      with True Cons.prems(2) show ?thesis by (simp add: fs)
    next
      case (Some c)
      with Cons.prems True fs have "\<not> is_dir c" by simp
      then obtain b where "c = File b" by (cases c) auto
      with Some True show ?thesis by (simp add: fs)
    qed
  next
    case False
    with Cons.prems fs obtain c where c: "dir_entry es s = Some c"
      and n: "node_at (butlast q) c = Some (Dir ds)"
      by (auto split: option.splits)
    from Cons.prems fs c have "\<forall>x. node_at q c = Some x \<longrightarrow> \<not> is_dir x" by simp
    moreover from Cons.prems False have "name_ok (last q)" by simp
    ultimately obtain c' where "write_at q d c = Inr c'"
      using Cons.IH [OF False _ n] by blast
    with c show ?thesis by (simp add: fs)
  qed
qed

subsection \<open>move\<close>

lemma stat_through_file:
  "node_at p fs = Some (File b) \<Longrightarrow> stat_segs (p @ t # r) fs = Inl ENOTDIR"
proof (induction p arbitrary: fs)
  case Nil
  then show ?case by simp
next
  case (Cons s p)
  then show ?case by (cases fs) (auto split: option.splits)
qed

lemma stat_segs_ENOENT_remove:
  "stat_segs q fs = Inl e \<Longrightarrow> remove_at q fs = fs"
  by (rule remove_at_missing) (rule stat_segs_ENOENT_node_at)

lemma remove_Inr: "remove p fs = Inr fs1 \<Longrightarrow> fs1 = remove_at (segs p) fs"
  by (auto simp: remove_def stat_def stat_segs_ENOENT_remove
      split: sum.splits if_splits option.splits)

lemma move_None_D:
  assumes "move src dest fs = (None, fs')"
  obtains x d fs1 where "stat src fs = Inr x" and "getStats dest fs = Inr d"
    and "checkPaths src x dest d = None"
    and "mkdirs (butlast (segs dest)) fs = (None, fs1)"
    and "rename_to src dest (remove_at (segs dest) fs1) = Inr fs'"
proof -
  from assms obtain x where x: "stat src fs = Inr x"
    by (auto simp: move_def split: sum.splits)
  from assms x obtain d where d: "getStats dest fs = Inr d"
    by (auto simp: move_def split: sum.splits)
  from assms x d have c: "checkPaths src x dest d = None"
    by (auto simp: move_def split: option.splits)
  from assms x d c obtain fs1 where e: "ensureDir (dirname dest) fs = (None, fs1)"
    and r: "doRename src dest fs1 = (None, fs')"
    by (auto simp: move_def split: prod.splits option.splits)
  from ensureDir_None [OF e] have m: "mkdirs (butlast (segs dest)) fs = (None, fs1)"
    by (simp add: dirname_def)
  from r obtain fs2 where rm: "remove dest fs1 = Inr fs2"
    and rn: "rename_to src dest fs2 = Inr fs'"
    by (auto simp: doRename_def split: sum.splits)
  from remove_Inr [OF rm] rn
  have "rename_to src dest (remove_at (segs dest) fs1) = Inr fs'" by simp
  with x d c m show ?thesis by (rule that)
qed

lemma move_success:
  assumes mv: "move src dest fs = (None, fs')"
  shows "\<not> prefix (segs src) (segs dest)"
    and "\<not> prefix (segs dest) (segs src)"
    and "node_at (segs src) fs \<noteq> None"
    and "node_at (segs dest) fs' = node_at (segs src) fs"
    and "node_at (segs src) fs' = None"
    and "\<And>p. \<not> prefix p (segs src) \<Longrightarrow> \<not> prefix (segs src) p \<Longrightarrow>
              \<not> prefix p (segs dest) \<Longrightarrow> \<not> prefix (segs dest) p \<Longrightarrow>
              node_at p fs' = node_at p fs"
proof -
  let ?s = "segs src" and ?d = "segs dest"
  from mv obtain x d fs1 where x: "stat src fs = Inr x" and d: "getStats dest fs = Inr d"
    and c: "checkPaths src x dest d = None"
    and m: "mkdirs (butlast ?d) fs = (None, fs1)"
    and rn: "rename_to src dest (remove_at ?d fs1) = Inr fs'"
    by (rule move_None_D)
  let ?fs2 = "remove_at ?d fs1"
  from x have nx: "node_at ?s fs = Some x" by (rule stat_Inr_node_at)
  from rn obtain x' where x': "stat src ?fs2 = Inr x'"
    and put: "put_at ?d x' (remove_at ?s ?fs2) = Inr fs'"
    by (auto simp: rename_to_def split: sum.splits if_splits option.splits)
  from x' have nx': "node_at ?s ?fs2 = Some x'" by (rule stat_Inr_node_at)
  from put have dne: "?d \<noteq> []" by auto
  show nds: "\<not> prefix ?d ?s"
  proof
    assume "prefix ?d ?s"
    from remove_at_below [OF this dne] nx' show False by simp
  qed
  show nsd: "\<not> prefix ?s ?d"
  proof
    assume p: "prefix ?s ?d"
    show False
    proof (cases "is_dir x")
      case True
      with c p show False by (auto simp: checkPaths_def split: if_splits)
    next
      case False
      then obtain b where b: "x = File b" by (cases x) auto
      from p nds have "?s \<noteq> ?d" by auto
      with p obtain t r where "?d = ?s @ t # r"
        by (auto simp: prefix_def) (metis list.exhaust)
      with stat_through_file [of ?s fs b t r] nx b
      have "stat_segs ?d fs = Inl ENOTDIR" by simp
      with d show False
        by (auto simp: getStats_def stat_def split: if_splits option.splits)
    qed
  qed
  from nsd have sne: "?s \<noteq> []" by auto
  from nsd have nsb: "\<not> prefix ?s (butlast ?d)"
    using prefix_order.trans [OF _ prefixeq_butlast [of ?d]] by blast
  have same: "node_at ?s ?fs2 = node_at ?s fs"
    using remove_at_frame [OF nds nsd, of fs1] mkdirs_frame [OF nsb m] by simp
  with nx nx' have xx: "x' = x" by simp
  show "node_at ?s fs \<noteq> None" using nx by simp
  show "node_at ?d fs' = node_at ?s fs"
    using put_at_node [OF put] xx nx by simp
  show "node_at ?s fs' = None"
    using put_at_frame [OF nds nsd put] remove_at_below [of ?s ?s ?fs2] sne by simp
  fix p
  assume a: "\<not> prefix p ?s" "\<not> prefix ?s p" "\<not> prefix p ?d" "\<not> prefix ?d p"
  from a(3) have npb: "\<not> prefix p (butlast ?d)"
    using prefix_order.trans [OF _ prefixeq_butlast [of ?d]] by blast
  show "node_at p fs' = node_at p fs"
    using put_at_frame [OF a(4) a(3) put] remove_at_frame [OF a(2) a(1), of ?fs2]
      remove_at_frame [OF a(4) a(3), of fs1] mkdirs_frame [OF npb m]
    by simp
qed

lemma move_frame:
  assumes mv: "move src dest fs = (r, fs')"
    and a: "\<not> prefix p (segs src)" "\<not> prefix (segs src) p"
      "\<not> prefix p (segs dest)" "\<not> prefix (segs dest) p"
  shows "node_at p fs' = node_at p fs"
proof (cases r)
  case None
  with mv a show ?thesis by (simp add: move_success(6))
next
  case (Some e)
  from a(3) have npb: "\<not> prefix p (segs (dirname dest))"
    using prefix_order.trans [OF _ prefixeq_butlast [of "segs dest"]]
    by (auto simp: dirname_def)
  have "fs' = fs \<or> (\<exists>r1 fs1. ensureDir (dirname dest) fs = (r1, fs1)
      \<and> (fs' = fs1 \<or> fs' = remove_at (segs dest) fs1))"
    using mv Some
    by (auto simp: move_def doRename_def dest!: remove_Inr
        split: sum.splits option.splits prod.splits)
  then show ?thesis
    using ensureDir_frame [OF npb] remove_at_frame [OF a(4) a(3)] by auto
qed

lemma remove_at_keeps_dir:
  "\<not> prefix q p \<Longrightarrow> node_at p fs = Some n \<Longrightarrow> is_dir n \<Longrightarrow>
     \<exists>n'. node_at p (remove_at q fs) = Some n' \<and> is_dir n'"
proof (induction q arbitrary: p fs)
  case Nil
  then show ?case by simp
next
  case (Cons s q)
  show ?case
  proof (cases p)
    case Nil
    with Cons.prems show ?thesis
      using remove_at_root_is_dir [of "s # q" fs] by simp
  next
    case (Cons t p')
    with Cons.prems obtain es where fs: "fs = Dir es" by (cases fs) auto
    show ?thesis
    proof (cases "t = s")
      case False
      with Cons.prems show ?thesis
        by (auto simp: Cons fs dir_entry_update dir_entry_delete split: option.splits)
    next
      case True
      with Cons.prems Cons have np: "\<not> prefix q p'" by simp
      then have ne: "q \<noteq> []" by auto
      from Cons.prems Cons fs True obtain c where c: "dir_entry es s = Some c"
        and n: "node_at p' c = Some n"
        by (auto split: option.splits)
      from Cons.IH [OF np n Cons.prems(3)] True c ne dir_entry_ok [OF c] show ?thesis
        by (simp add: Cons fs dir_entry_update)
    qed
  qed
qed

lemma stat_segs_under_dir:
  "q \<noteq> [] \<Longrightarrow> name_ok (last q) \<Longrightarrow> node_at (butlast q) fs = Some (Dir ds) \<Longrightarrow>
     stat_segs q fs = Inl e \<Longrightarrow> e = ENOENT"
proof (induction q arbitrary: fs)
  case Nil
  then show ?case by simp
next
  case (Cons s q)
  show ?case
  proof (cases "q = []")
    case True
    with Cons.prems show ?thesis by (auto split: option.splits)
  next
    case False
    with Cons.prems obtain es where fs: "fs = Dir es" by (cases fs) auto
    with Cons.prems False obtain c where c: "dir_entry es s = Some c"
      and n: "node_at (butlast q) c = Some (Dir ds)"
      by (auto split: option.splits)
    from Cons.prems fs c have "stat_segs q c = Inl e" by simp
    moreover from Cons.prems False have "name_ok (last q)" by simp
    ultimately show ?thesis using Cons.IH [OF False _ n] by blast
  qed
qed

text \<open>
  A move between two plain paths that pass the check succeeds when neither path lies
  below the other, the directory of the destination exists, the last name of the
  destination is one a directory can hold, and the destination is missing or of the
  same kind as the source.
\<close>

lemma move_succeeds:
  assumes x: "node_at s fs = Some x"
    and nsd: "\<not> prefix s d" and nds: "\<not> prefix d s"
    and par: "node_at (butlast d) fs = Some (Dir ds)"
    and ok: "name_ok (last d)"
    and ps: "path_error (FPath s False) = None"
    and pd: "path_error (FPath d False) = None"
    and pb: "path_error (FPath (butlast d) False) = None"
    and kind: "\<And>y. node_at d fs = Some y \<Longrightarrow> is_dir y = is_dir x"
  shows "\<exists>fs'. move (FPath s False) (FPath d False) fs = (None, fs')"
proof -
  from nds have dne: "d \<noteq> []" by auto
  from x have st: "stat (FPath s False) fs = Inr x"
    by (simp add: stat_plain [OF ps] stat_segs_node_at)
  have gs: "getStats (FPath d False) fs = Inr (node_at d fs)"
  proof (cases "stat_segs d fs")
    case (Inl e)
    with stat_segs_under_dir [OF dne ok par Inl] show ?thesis
      by (simp add: getStats_def stat_plain [OF pd] node_at_def)
  next
    case (Inr y)
    then show ?thesis by (simp add: getStats_def stat_plain [OF pd] node_at_def)
  qed
  have cp: "checkPaths (FPath s False) x (FPath d False) (node_at d fs) = None"
    using nsd kind by (auto simp: checkPaths_def)
  have mk: "ensureDir (dirname (FPath d False)) fs = (None, fs)"
    using mkdirs_existing [OF par] pb by (simp add: dirname_def ensureDir_def)
  let ?fs2 = "remove_at d fs"
  have rm: "remove (FPath d False) fs = Inr ?fs2"
    using stat_segs_under_dir [OF dne ok par]
    by (auto simp: remove_def stat_plain [OF pd] stat_segs_ENOENT_remove
        split: sum.splits)
  have x2: "stat (FPath s False) ?fs2 = Inr x"
    using remove_at_frame [OF nds nsd, of fs] x
    by (simp add: stat_plain [OF ps] stat_segs_node_at)
  have nbd: "\<not> prefix d (butlast d)"
    using dne by (metis append_butlast_last_id append_self_conv list.discI
        prefix_order.antisym prefixeq_butlast)
  have nsb: "\<not> prefix s (butlast d)"
    using nsd prefix_order.trans [OF _ prefixeq_butlast [of d]] by blast
  from remove_at_keeps_dir [OF nbd par] obtain n1 where
    n1: "node_at (butlast d) ?fs2 = Some n1" "is_dir n1" by auto
  from remove_at_keeps_dir [OF nsb n1] obtain n2 where
    n2: "node_at (butlast d) (remove_at s ?fs2) = Some n2" "is_dir n2" by auto
  then obtain ds' where "node_at (butlast d) (remove_at s ?fs2) = Some (Dir ds')"
    by (cases n2) auto
  from put_at_succeeds [OF dne ok this] obtain fs' where
    "put_at d x (remove_at s ?fs2) = Inr fs'" ..
  with x2 pd have "rename_to (FPath s False) (FPath d False) ?fs2 = Inr fs'"
    by (simp add: rename_to_def)
  with rm have "doRename (FPath s False) (FPath d False) fs = (None, fs')"
    by (simp add: doRename_def)
  with st gs cp mk show ?thesis by (simp add: move_def)
qed

section \<open>Conditions on the disk\<close>

text \<open>
  The disk is meant to hold \<open>public\<close> and \<open>private\<close> as directories of folders, and
  regular files in the folders. The handlers do not check this, and file system calls
  fail where it does not hold; the conditions below say, path by path, what a result
  needs.
\<close>

definition dir_or_missing :: "string list \<Rightarrow> node \<Rightarrow> bool" where
  "dir_or_missing p fs = (case node_at p fs of None \<Rightarrow> True | Some x \<Rightarrow> is_dir x)"

definition file_or_missing :: "string list \<Rightarrow> node \<Rightarrow> bool" where
  "file_or_missing p fs = (case node_at p fs of None \<Rightarrow> True | Some x \<Rightarrow> \<not> is_dir x)"

text \<open>The working directory is a directory, and so is each root that exists.\<close>

definition roots_are_dirs :: "node \<Rightarrow> bool" where
  "roots_are_dirs fs =
     (is_dir fs \<and> dir_or_missing [publicDir] fs \<and> dir_or_missing [privateDir] fs)"

lemma dir_or_missingD: "dir_or_missing p fs \<Longrightarrow> node_at p fs = Some x \<Longrightarrow> is_dir x"
  by (simp add: dir_or_missing_def)

lemma file_or_missingD: "file_or_missing p fs \<Longrightarrow> node_at p fs = Some x \<Longrightarrow> \<not> is_dir x"
  by (simp add: file_or_missing_def)

lemma prefix_two:
  "prefix p [a, b] \<longleftrightarrow> p = [] \<or> p = [a] \<or> p = [a, b]"
  by (cases p; cases "tl p"; cases "tl (tl p)") auto

lemma ensure_root_succeeds:
  assumes "is_dir fs" and "dir_or_missing [r] fs" and "name_ok r"
  obtains fs1 where "mkdirs [r] fs = (None, fs1)"
proof -
  have "\<exists>fs1. mkdirs [r] fs = (None, fs1)"
  proof (rule mkdirs_succeeds [OF assms(1)])
    fix s
    assume "s \<in> set [r]"
    with assms(3) show "name_ok s" by simp
  next
    fix p x
    assume "prefix p [r]" and n: "node_at p fs = Some x"
    then have "p = [] \<or> p = [r]" by (cases p) auto
    with n assms dir_or_missingD [OF assms(2)] show "is_dir x" by auto
  qed
  then show ?thesis using that by blast
qed

lemma ensure_folder_succeeds:
  assumes "is_dir fs" and "dir_or_missing [r] fs" and "dir_or_missing [r, f] fs"
    and "name_ok r" and "name_ok f"
  obtains fs1 where "mkdirs [r, f] fs = (None, fs1)"
proof -
  have "\<exists>fs1. mkdirs [r, f] fs = (None, fs1)"
  proof (rule mkdirs_succeeds [OF assms(1)])
    fix s
    assume "s \<in> set [r, f]"
    with assms(4,5) show "name_ok s" by auto
  next
    fix p x
    assume "prefix p [r, f]" and n: "node_at p fs = Some x"
    then consider "p = []" | "p = [r]" | "p = [r, f]" by (auto simp: prefix_two)
    then show "is_dir x"
    proof cases
      case 1
      with n assms(1) show ?thesis by simp
    next
      case 2
      with n dir_or_missingD [OF assms(2)] show ?thesis by simp
    next
      case 3
      with n dir_or_missingD [OF assms(3)] show ?thesis by simp
    qed
  qed
  then show ?thesis using that by blast
qed

section \<open>Creating folders and storing files\<close>

lemma accepted_filename:
  assumes "validatePath f (Some n) = Inr v" and "n \<noteq> []"
  shows "v = \<lparr>safeFolder = f, safeFilename = Some n\<rparr>" and "safePattern f"
    and "\<not> includes_str n ''..''" and "safePattern (filenameBase n)"
  using validatePath_result [OF assms(1)] validatePath_accepts_folder [OF assms(1)]
    validatePath_accepts_filename [OF assms] assms(2)
  by auto

lemma accepted_folder:
  assumes "validatePath f None = Inr v"
  shows "v = \<lparr>safeFolder = f, safeFilename = None\<rparr>" and "safePattern f"
  using validatePath_result [OF assms] validatePath_accepts_folder [OF assms] by auto

lemma mkdir_frame:
  assumes t: "t \<noteq> (if expose then publicDir else privateDir)"
  shows "node_at [t] (snd (mkdir baseUrl fs folder expose)) = node_at [t] fs"
proof (cases "truthy folder \<and> (\<exists>v. validatePath (str folder) None = Inr v)")
  case False
  then show ?thesis
    by (cases "validatePath (str folder) None") (auto simp: mkdir_def)
next
  case True
  then obtain v where v: "validatePath (str folder) None = Inr v" by blast
  let ?r = "if expose then publicDir else privateDir"
  have r: "?r = publicDir \<or> ?r = privateDir" by simp
  note a = accepted_folder [OF v]
  have pj: "path_join [?r, str folder] = FPath [?r, str folder] False"
    using path_join_folder [OF r a(2)] .
  have np: "\<not> prefix [t] [?r, str folder]"
    using t by simp
  obtain e fs1 where m: "ensureDir (FPath [?r, str folder] False) fs = (e, fs1)"
    by (cases "ensureDir (FPath [?r, str folder] False) fs")
  from ensureDir_frame [OF _ m, of "[t]"] np have "node_at [t] fs1 = node_at [t] fs"
    by simp
  with True v a(1) pj m show ?thesis
    by (cases e) (simp_all add: mkdir_def Let_def)
qed

lemma storeFile_frame:
  assumes t: "t \<noteq> (if expose then publicDir else privateDir)"
  shows "node_at [t] (snd (storeFile baseUrl fs f n fileData expose)) = node_at [t] fs"
proof (cases "validatePath f (Some n)")
  case (Inl e)
  then show ?thesis by (simp add: storeFile_def)
next
  case (Inr v)
  let ?r = "if expose then publicDir else privateDir"
  have r: "?r = publicDir \<or> ?r = privateDir" by simp
  have sf: "safePattern f" using validatePath_accepts_folder [OF Inr] .
  have vf: "safeFolder v = f" using validatePath_result [OF Inr] by simp
  have pj: "path_join [?r, f] = FPath [?r, f] False"
    using path_join_folder [OF r sf] .
  have np: "\<not> prefix [t] [?r, f]"
    using t by simp
  obtain e fs1 where m: "ensureDir (FPath [?r, f] False) fs = (e, fs1)"
    by (cases "ensureDir (FPath [?r, f] False) fs")
  from ensureDir_frame [OF _ m, of "[t]"] np have f1: "node_at [t] fs1 = node_at [t] fs"
    by simp
  show ?thesis
  proof (cases e)
    case (Some err)
    with Inr vf pj m f1 show ?thesis
      by (simp add: storeFile_def Let_def)
  next
    case None
    show ?thesis
    proof (cases "n = []")
      case True
      with Inr have "safeFilename v = None"
        using validatePath_result [OF Inr] by simp
      with Inr vf pj m f1 None show ?thesis
        by (simp add: storeFile_def Let_def)
    next
      case False
      note a = accepted_filename [OF Inr False]
      have pf: "path_join [?r, f, n] = FPath (?r # f # name_segs n) (last n = CHR ''/'')"
        using path_join_file [OF r sf False a(3)] .
      have n1: "\<not> prefix (?r # f # name_segs n) [t]" "\<not> prefix [t] (?r # f # name_segs n)"
        using t by simp_all
      show ?thesis
      proof (cases "writeFile (path_join [?r, f, n]) fileData fs1")
        case (Inl e)
        with Inr a(1) pj m f1 None show ?thesis
          by (simp add: storeFile_def Let_def)
      next
        case w: (Inr fs2)
        then have "write_at (?r # f # name_segs n) fileData fs1 = Inr fs2"
          by (simp add: pf writeFile_def split: if_splits option.splits)
        from write_at_frame [OF n1 this] f1 Inr a(1) pj m w None show ?thesis
          by (simp add: storeFile_def Let_def)
      qed
    qed
  qed
qed

lemma accepted_name_segs:
  assumes "validatePath f (Some n) = Inr v" and "n \<noteq> []" and "CHR ''/'' \<notin> set n"
  shows "name_segs n = [n]" and "last n \<noteq> CHR ''/''"
proof -
  note a = accepted_filename [OF assms(1,2)]
  from safePattern_base_hd [OF a(4)] have "n \<noteq> ''.''" by auto
  with assms show "name_segs n = [n]" by (simp add: name_segs_simple)
  from last_in_set [OF assms(2)] assms(3) show "last n \<noteq> CHR ''/''"
    by auto
qed

lemma readFile_plain:
  assumes "length p \<le> 15"
  shows "readFile (FPath p False) fs
     = (case node_at p fs of Some (File b) \<Rightarrow> Some b | _ \<Rightarrow> None)"
proof (cases "node_at p fs")
  case None
  obtain e where "stat (FPath p False) fs = Inl e"
    using stat_Inr_node_at [of "FPath p False" fs] None
    by (cases "stat (FPath p False) fs") auto
  with None show ?thesis by (simp add: readFile_def)
next
  case (Some x)
  from stat_node [OF Some assms] Some show ?thesis
    by (simp add: readFile_def)
qed

lemma storeFile_round_trip:
  assumes d: "is_dir fs"
    and dr: "dir_or_missing [if expose then publicDir else privateDir] fs"
    and df: "dir_or_missing [if expose then publicDir else privateDir, f] fs"
    and fn: "file_or_missing [if expose then publicDir else privateDir, f, n] fs"
    and v: "validatePath f (Some n) = Inr v" and ne: "n \<noteq> []"
    and ns: "CHR ''/'' \<notin> set n" and okf: "name_ok f" and okn: "name_ok n"
  shows "\<exists>fs'. storeFile baseUrl fs f n fileData expose =
           (Ok \<lparr>r_action = ''file_uploaded'',
                r_visibility = Some (if expose then Exposed else Hidden),
                r_url = (if expose then Some (buildPublicUrl baseUrl f (Some n)) else None),
                r_folder = Some f,
                r_file = Some n\<rparr> NoListing, fs')
         \<and> readFile (path_join [if expose then publicDir else privateDir, f, n]) fs'
             = Some fileData"
proof -
  let ?r = "if expose then publicDir else privateDir"
  have r: "?r = publicDir \<or> ?r = privateDir" by simp
  note a = accepted_filename [OF v ne]
  note s = accepted_name_segs [OF v ne ns]
  have pj: "path_join [?r, f] = FPath [?r, f] False"
    using path_join_folder [OF r a(2)] .
  have pf: "path_join [?r, f, n] = FPath [?r, f, n] False"
    using path_join_file [OF r a(2) ne a(3)] s by simp
  have okr: "name_ok ?r" by simp
  from ensure_folder_succeeds [OF d dr df okr okf]
  obtain fs1 where m: "mkdirs [?r, f] fs = (None, fs1)" .
  from mkdirs_makes_dir [OF m] obtain ds where ds: "node_at [?r, f] fs1 = Some (Dir ds)" ..
  have pe: "path_error (FPath [?r, f] False) = None"
    "path_error (FPath [?r, f, n] False) = None"
    using okr okf okn by (auto intro!: path_error_ok)
  have same: "node_at [?r, f, n] fs1 = node_at [?r, f, n] fs"
    by (rule mkdirs_frame [OF _ m]) simp
  have "\<forall>x. node_at [?r, f, n] fs1 = Some x \<longrightarrow> \<not> is_dir x"
    using file_or_missingD [OF fn] same by auto
  from write_at_succeeds [of "[?r, f, n]" fs1 ds, OF _ _ _ this] ds okn
  obtain fs2 where w: "write_at [?r, f, n] fileData fs1 = Inr fs2" by auto
  have rd: "readFile (FPath [?r, f, n] False) fs2 = Some fileData"
    using write_at_node [OF _ w] by (simp add: readFile_plain)
  have "storeFile baseUrl fs f n fileData expose =
           (Ok \<lparr>r_action = ''file_uploaded'',
                r_visibility = Some (if expose then Exposed else Hidden),
                r_url = (if expose then Some (buildPublicUrl baseUrl f (Some n)) else None),
                r_folder = Some f,
                r_file = Some n\<rparr> NoListing, fs2)"
    using v a(1) pj pf m w pe
    by (simp add: storeFile_def Let_def ensureDir_def writeFile_def)
  with rd pf show ?thesis by auto
qed

text \<open>
  A successful upload has written the file, so the folder name and, when the filename
  is a single component, the filename are names a directory can hold.
\<close>

lemma storeFile_Ok_names:
  assumes ok: "storeFile baseUrl fs f n fileData expose = (Ok b l, fs')"
    and ns: "CHR ''/'' \<notin> set n"
  shows "name_ok f" and "name_ok n"
    and "node_at [if expose then publicDir else privateDir, f, n] fs' = Some (File fileData)"
proof -
  let ?r = "if expose then publicDir else privateDir"
  have r: "?r = publicDir \<or> ?r = privateDir" by simp
  from ok obtain v where v: "validatePath f (Some n) = Inr v"
    by (cases "validatePath f (Some n)") (auto simp: storeFile_def)
  have ne: "n \<noteq> []"
  proof
    assume "n = []"
    with v have "safeFilename v = None" using validatePath_result [OF v] by simp
    with ok v show False
      by (auto simp: storeFile_def Let_def split: prod.splits option.splits)
  qed
  note a = accepted_filename [OF v ne]
  note s = accepted_name_segs [OF v ne ns]
  have pf: "path_join [?r, f, n] = FPath [?r, f, n] False"
    using path_join_file [OF r a(2) ne a(3)] s by simp
  from ok v a(1) obtain fs1 where "writeFile (path_join [?r, f, n]) fileData fs1 = Inr fs'"
    by (auto simp: storeFile_def Let_def split: prod.splits option.splits sum.splits)
  with pf have "write_at [?r, f, n] fileData fs1 = Inr fs'"
    by (cases expose) (auto simp: writeFile_def split: option.splits)
  from write_at_node [OF _ this]
  show n: "node_at [?r, f, n] fs' = Some (File fileData)" by simp
  from node_at_names_ok [OF n] show "name_ok f" and "name_ok n" by simp_all
qed

lemmas fs_eval =
  path_join_def normalize_segs_def ensureDir_def writeFile_def readFile_def
  pathExists_def stat_def publicDir_def privateDir_def remove_def dirname_def
  move_def getStats_def checkPaths_def doRename_def rename_to_def readdir_def
  path_child_def path_error_def path_string_def name_ok_def dir_entry_def
  lookup_error_def NAME_MAX_def PATH_MAX_def Let_def

lemmas disk_eval =
  dir_or_missing_def file_or_missing_def roots_are_dirs_def

section \<open>Claims about creating folders and storing files\<close>

text \<open>
  C7 (as amended). Take a disk whose working directory is a directory, on which
  \<open>public\<close> and \<open>public/f\<close> are directories or missing and \<open>public/f/n\<close> is a regular
  file or missing. For every folder name and filename that \<open>validatePath\<close> accepts,
  each of them a name a directory can hold (at most 255 bytes, no NUL byte) and the
  filename containing no path separator, and for every byte sequence, an exposed upload
  succeeds and reading the file at \<open>public/f/n\<close> afterwards yields exactly the uploaded
  bytes, whatever was stored at that path before.
\<close>

theorem upload_round_trip:
  assumes "is_dir fs" and "dir_or_missing [publicDir] fs"
    and "dir_or_missing [publicDir, f] fs" and "file_or_missing [publicDir, f, n] fs"
    and "validatePath f (Some n) = Inr \<lparr>safeFolder = f, safeFilename = Some n\<rparr>"
    and "CHR ''/'' \<notin> set n" and "name_ok f" and "name_ok n"
  shows "\<exists>fs'. storeFile baseUrl fs f n fileData True =
           (Ok \<lparr>r_action = ''file_uploaded'',
                r_visibility = Some Exposed,
                r_url = Some (buildPublicUrl baseUrl f (Some n)),
                r_folder = Some f,
                r_file = Some n\<rparr> NoListing, fs')
         \<and> readFile (path_join [publicDir, f, n]) fs' = Some fileData"
proof -
  from assms(5) have "n \<noteq> []"
    using validatePath_result [OF assms(5)] by (auto split: if_splits)
  from storeFile_round_trip [of fs True f n, OF _ _ _ _ assms(5) this assms(6-8)] assms(1-4)
  show ?thesis by simp
qed

theorem upload_round_trip_witness:
  "is_dir (Dir [(''public'', Dir [(''docs'', Dir [(''a.txt'', File [1, 2, 3])])])])
   \<and> dir_or_missing [publicDir]
        (Dir [(''public'', Dir [(''docs'', Dir [(''a.txt'', File [1, 2, 3])])])])
   \<and> dir_or_missing [publicDir, ''docs'']
        (Dir [(''public'', Dir [(''docs'', Dir [(''a.txt'', File [1, 2, 3])])])])
   \<and> file_or_missing [publicDir, ''docs'', ''a.txt'']
        (Dir [(''public'', Dir [(''docs'', Dir [(''a.txt'', File [1, 2, 3])])])])
   \<and> validatePath ''docs'' (Some ''a.txt'')
       = Inr \<lparr>safeFolder = ''docs'', safeFilename = Some ''a.txt''\<rparr>
   \<and> CHR ''/'' \<notin> set ''a.txt'' \<and> name_ok ''docs'' \<and> name_ok ''a.txt''
   \<and> (\<exists>fs'. storeFile ''https://files.example''
                (Dir [(''public'', Dir [(''docs'', Dir [(''a.txt'', File [1, 2, 3])])])])
                ''docs'' ''a.txt'' [104, 105] True =
           (Ok \<lparr>r_action = ''file_uploaded'',
                r_visibility = Some Exposed,
                r_url = Some (buildPublicUrl ''https://files.example'' ''docs'' (Some ''a.txt'')),
                r_folder = Some ''docs'',
                r_file = Some ''a.txt''\<rparr> NoListing, fs')
         \<and> readFile (path_join [publicDir, ''docs'', ''a.txt'']) fs' = Some [104, 105])"
proof -
  let ?fs = "Dir [(''public'', Dir [(''docs'', Dir [(''a.txt'', File [1, 2, 3])])])]"
  have d: "is_dir ?fs" "dir_or_missing [publicDir] ?fs"
    "dir_or_missing [publicDir, ''docs''] ?fs"
    "file_or_missing [publicDir, ''docs'', ''a.txt''] ?fs"
    by (simp_all add: disk_eval node_eval publicDir_def)
  have v: "validatePath ''docs'' (Some ''a.txt'')
       = Inr \<lparr>safeFolder = ''docs'', safeFilename = Some ''a.txt''\<rparr>"
    by (simp add: validate_eval)
  have s: "CHR ''/'' \<notin> set ''a.txt''" by simp
  have k: "name_ok ''docs''" "name_ok ''a.txt''"
    by (simp_all add: name_ok_def NAME_MAX_def)
  from upload_round_trip [OF d v s k, of "''https://files.example''" "[104, 105]"] d v s k
  show ?thesis by blast
qed

text \<open>
  C7 as stated fails for a filename that \<open>validatePath\<close> accepts and that contains a
  path separator: on the empty disk the upload of \<open>a.b/c\<close> into \<open>docs\<close> creates the
  folder, fails to write below the missing directory \<open>public/docs/a.b\<close>, and leaves
  nothing to read. It fails as well for an accepted filename with a NUL byte after its
  first period: the folder is created, \<open>writeFile\<close> refuses the path, and the answer
  is 400.
\<close>

theorem upload_round_trip_counterexample:
  "validatePath ''docs'' (Some ''a.b/c'')
       = Inr \<lparr>safeFolder = ''docs'', safeFilename = Some ''a.b/c''\<rparr>
   \<and> storeFile ''https://files.example'' (Dir []) ''docs'' ''a.b/c'' [104, 105] True
       = (Fail 400 (FsFailure ENOENT), Dir [(''public'', Dir [(''docs'', Dir [])])])
   \<and> readFile (path_join [publicDir, ''docs'', ''a.b/c''])
        (Dir [(''public'', Dir [(''docs'', Dir [])])]) = None
   \<and> validatePath ''docs'' (Some [CHR ''a'', CHR ''.'', CHR 0x00])
       = Inr \<lparr>safeFolder = ''docs'', safeFilename = Some [CHR ''a'', CHR ''.'', CHR 0x00]\<rparr>
   \<and> storeFile ''https://files.example'' (Dir []) ''docs'' [CHR ''a'', CHR ''.'', CHR 0x00]
        [104, 105] True
       = (Fail 400 (FsFailure ERR_INVALID_ARG_VALUE),
          Dir [(''public'', Dir [(''docs'', Dir [])])])
   \<and> readFile (path_join [publicDir, ''docs'', [CHR ''a'', CHR ''.'', CHR 0x00]])
        (Dir [(''public'', Dir [(''docs'', Dir [])])]) = None"
  by (simp add: storeFile_def validate_eval fs_eval)

text \<open>
  A folder name of 256 letters passes \<open>validatePath\<close> and is longer than a name can
  be: \<open>mkdir\<close> on the empty disk answers 400, after \<open>ensureDir\<close> has created the
  root above the folder.
\<close>

lemma mkdir_long_name:
  "mkdir ''https://files.example'' (Dir []) (Some (replicate 256 CHR ''a'')) False
     = (Fail 400 (FsFailure ENAMETOOLONG), Dir [(privateDir, Dir [])])"
proof -
  let ?f = "replicate 256 CHR ''a''"
  have s: "safePattern ?f"
    by (simp add: validate_eval list_all_iff)
  have e: "ensureDir (FPath [privateDir, ?f] False) (Dir [])
      = (Some ENAMETOOLONG, Dir [(privateDir, Dir [])])"
    by (simp add: ensureDir_def path_error_def path_string_def PATH_MAX_def name_ok_def
        NAME_MAX_def lookup_error_def dir_entry_def privateDir_def)
  from validatePath_folder_only [OF s] path_join_folder [OF _ s, of privateDir] e
  show ?thesis
    by (simp add: mkdir_def)
qed

text \<open>
  C10. \<open>mkdir\<close> and the upload write below the root that the \<open>expose\<close> flag selects
  (\<open>public\<close> when it is set, \<open>private\<close> when not) and nowhere else: whatever the
  outcome, every other entry of the working directory, the other root among them, is
  exactly as it was; a folder or file of the same name in the other root stays. So
  both can produce a disk on which the same folder, or the same file, exists in both
  roots: creating \<open>docs\<close> hidden and then exposed, or uploading \<open>docs/a.txt\<close> exposed
  and then hidden, does.
\<close>

theorem create_and_upload_leave_other_root:
  "(t \<noteq> (if expose then publicDir else privateDir) \<longrightarrow>
      node_at [t] (snd (mkdir baseUrl fs folder expose)) = node_at [t] fs
      \<and> node_at [t] (snd (storeFile baseUrl fs f n fileData expose)) = node_at [t] fs)
   \<and> node_at [if expose then privateDir else publicDir]
         (snd (mkdir baseUrl fs folder expose))
     = node_at [if expose then privateDir else publicDir] fs
   \<and> node_at [if expose then privateDir else publicDir]
         (snd (storeFile baseUrl fs f n fileData expose))
     = node_at [if expose then privateDir else publicDir] fs
   \<and> snd (mkdir ''https://files.example''
            (snd (mkdir ''https://files.example'' (Dir []) (Some ''docs'') False))
            (Some ''docs'') True)
     = Dir [(''private'', Dir [(''docs'', Dir [])]), (''public'', Dir [(''docs'', Dir [])])]
   \<and> snd (storeFile ''https://files.example''
            (snd (storeFile ''https://files.example'' (Dir []) ''docs'' ''a.txt'' [1] True))
            ''docs'' ''a.txt'' [2] False)
     = Dir [(''public'', Dir [(''docs'', Dir [(''a.txt'', File [1])])]),
            (''private'', Dir [(''docs'', Dir [(''a.txt'', File [2])])])]"
proof (intro conjI impI)
  assume "t \<noteq> (if expose then publicDir else privateDir)"
  then show "node_at [t] (snd (mkdir baseUrl fs folder expose)) = node_at [t] fs"
    and "node_at [t] (snd (storeFile baseUrl fs f n fileData expose)) = node_at [t] fs"
    by (rule mkdir_frame, rule storeFile_frame)
next
  show "node_at [if expose then privateDir else publicDir]
          (snd (mkdir baseUrl fs folder expose))
        = node_at [if expose then privateDir else publicDir] fs"
    by (rule mkdir_frame) (simp add: publicDir_def privateDir_def)
  show "node_at [if expose then privateDir else publicDir]
          (snd (storeFile baseUrl fs f n fileData expose))
        = node_at [if expose then privateDir else publicDir] fs"
    by (rule storeFile_frame) (simp add: publicDir_def privateDir_def)
  show "snd (mkdir ''https://files.example''
            (snd (mkdir ''https://files.example'' (Dir []) (Some ''docs'') False))
            (Some ''docs'') True)
     = Dir [(''private'', Dir [(''docs'', Dir [])]), (''public'', Dir [(''docs'', Dir [])])]"
    by (simp add: mkdir_def validate_eval fs_eval)
  show "snd (storeFile ''https://files.example''
            (snd (storeFile ''https://files.example'' (Dir []) ''docs'' ''a.txt'' [1] True))
            ''docs'' ''a.txt'' [2] False)
     = Dir [(''public'', Dir [(''docs'', Dir [(''a.txt'', File [1])])]),
            (''private'', Dir [(''docs'', Dir [(''a.txt'', File [2])])])]"
    by (simp add: storeFile_def validate_eval fs_eval)
qed

theorem create_and_upload_leave_other_root_witness:
  "''private'' \<noteq> (if True then publicDir else privateDir)
   \<and> node_at [''private'']
        (snd (mkdir ''https://files.example''
           (Dir [(''private'', Dir [(''docs'', Dir [(''a.txt'', File [2])])])])
           (Some ''docs'') True))
      = Some (Dir [(''docs'', Dir [(''a.txt'', File [2])])])
   \<and> node_at [''private'']
        (snd (storeFile ''https://files.example''
           (Dir [(''private'', Dir [(''docs'', Dir [(''a.txt'', File [2])])])])
           ''docs'' ''a.txt'' [1] True))
      = Some (Dir [(''docs'', Dir [(''a.txt'', File [2])])])"
proof -
  have h: "''private'' \<noteq> (if True then publicDir else privateDir)"
    by (simp add: publicDir_def)
  have n: "node_at [''private'']
      (Dir [(''private'', Dir [(''docs'', Dir [(''a.txt'', File [2])])])])
      = Some (Dir [(''docs'', Dir [(''a.txt'', File [2])])])"
    by (simp add: node_eval)
  from create_and_upload_leave_other_root [where t = "''private''" and expose = True
      and fs = "Dir [(''private'', Dir [(''docs'', Dir [(''a.txt'', File [2])])])]"
      and baseUrl = "''https://files.example''" and folder = "Some ''docs''"
      and f = "''docs''" and n = "''a.txt''" and fileData = "[1]"] h n
  show ?thesis by simp
qed

section \<open>Exposing and unexposing\<close>

lemma roots_distinct: "publicDir \<noteq> privateDir"
  by (simp add: publicDir_def privateDir_def)

lemma dirname_folder: "dirname (FPath [r, f] False) = FPath [r] False"
  by (simp add: dirname_def)

lemma ensureDir_root:
  assumes "name_ok r"
  shows "ensureDir (FPath [r] False) fs = mkdirs [r] fs"
proof -
  have "path_error (FPath [r] False) = None"
    using assms by (intro path_error_ok) auto
  then show ?thesis by (simp add: ensureDir_def)
qed

text \<open>
  Moving the folder \<open>f\<close> from the root \<open>a\<close> to the other root \<open>b\<close>, as \<open>expose\<close> and
  \<open>unexpose\<close> do, where the folder is a directory and nothing but a directory is in
  its way.
\<close>

lemma toggle_move:
  assumes d: "is_dir fs" and br: "dir_or_missing [b] fs" and bf: "dir_or_missing [b, f] fs"
    and ab: "a \<noteq> b" and x: "node_at [a, f] fs = Some x" and dx: "is_dir x"
    and okb: "name_ok b"
  obtains fs1 fs2 where "mkdirs [b] fs = (None, fs1)"
    and "move (FPath [a, f] False) (FPath [b, f] False) fs1 = (None, fs2)"
    and "node_at [b, f] fs2 = Some x" and "node_at [a, f] fs2 = None"
proof -
  from ensure_root_succeeds [OF d br okb] obtain fs1 where m: "mkdirs [b] fs = (None, fs1)" .
  from node_at_names_ok [OF x] have oka: "name_ok a" and okf: "name_ok f" by simp_all
  from mkdirs_makes_dir [OF m] obtain ds where ds: "node_at [b] fs1 = Some (Dir ds)" ..
  have sa: "node_at [a, f] fs1 = node_at [a, f] fs"
    by (rule mkdirs_frame [OF _ m]) simp
  have sb: "node_at [b, f] fs1 = node_at [b, f] fs"
    by (rule mkdirs_frame [OF _ m]) simp
  have "\<exists>fs2. move (FPath [a, f] False) (FPath [b, f] False) fs1 = (None, fs2)"
  proof (rule move_succeeds)
    show "node_at [a, f] fs1 = Some x" using sa x by simp
    show "\<not> prefix [a, f] [b, f]" "\<not> prefix [b, f] [a, f]" using ab by simp_all
    show "node_at (butlast [b, f]) fs1 = Some (Dir ds)" using ds by simp
    show "name_ok (last [b, f])" using okf by simp
    show "path_error (FPath [a, f] False) = None" "path_error (FPath [b, f] False) = None"
      "path_error (FPath (butlast [b, f]) False) = None"
      using oka okb okf by (auto intro!: path_error_ok)
    fix y
    assume "node_at [b, f] fs1 = Some y"
    with sb dir_or_missingD [OF bf, of y] dx
    show "is_dir y = is_dir x" by simp
  qed
  then obtain fs2 where mv: "move (FPath [a, f] False) (FPath [b, f] False) fs1 = (None, fs2)" ..
  from move_success(4,5) [OF mv] sa x
  have "node_at [b, f] fs2 = Some x" "node_at [a, f] fs2 = None" by simp_all
  with m mv show ?thesis by (rule that)
qed

lemma folder_paths:
  assumes "safePattern f"
  shows "validatePath f None = Inr \<lparr>safeFolder = f, safeFilename = None\<rparr>"
    and "path_join [publicDir, f] = FPath [publicDir, f] False"
    and "path_join [privateDir, f] = FPath [privateDir, f] False"
  using validatePath_folder_only [OF assms] path_join_folder [OF _ assms] by simp_all

lemma expose_twice:
  assumes r: "roots_are_dirs fs" and f: "safePattern f"
    and fp: "dir_or_missing [publicDir, f] fs" and fv: "dir_or_missing [privateDir, f] fs"
    and ex: "node_at [privateDir, f] fs \<noteq> None \<or> node_at [publicDir, f] fs \<noteq> None"
  shows "\<exists>b fs1. expose_folder baseUrl fs f = (Ok b NoListing, fs1)
           \<and> r_visibility b = Some Exposed
           \<and> node_at [publicDir, f] fs1 \<noteq> None \<and> node_at [privateDir, f] fs1 = None
           \<and> expose_folder baseUrl fs1 f = (Ok b NoListing, fs1)"
proof -
  note p = folder_paths [OF f]
  let ?b = "\<lparr>r_action = ''folder_exposed'', r_visibility = Some Exposed,
              r_url = Some (buildPublicUrl baseUrl f None), r_folder = Some f,
              r_file = None\<rparr>"
  have noop: "expose_folder baseUrl fs' f = (Ok ?b NoListing, fs')"
    if "node_at [privateDir, f] fs' = None" and "node_at [publicDir, f] fs' \<noteq> None" for fs'
    using that by (simp add: expose_folder_def p Let_def)
  show ?thesis
  proof (cases "node_at [privateDir, f] fs")
    case None
    with ex have "node_at [publicDir, f] fs \<noteq> None" by simp
    with None noop [of fs] show ?thesis by auto
  next
    case (Some x)
    from r have d: "is_dir fs" and dr: "dir_or_missing [publicDir] fs"
      by (simp_all add: roots_are_dirs_def)
    from toggle_move [OF d dr fp _ Some dir_or_missingD [OF fv Some]] roots_distinct
    obtain fs1 fs2 where m: "mkdirs [publicDir] fs = (None, fs1)"
      and mv: "move (FPath [privateDir, f] False) (FPath [publicDir, f] False) fs1 = (None, fs2)"
      and n: "node_at [publicDir, f] fs2 = Some x" "node_at [privateDir, f] fs2 = None"
      by (metis root_names_ok)
    have "expose_folder baseUrl fs f = (Ok ?b NoListing, fs2)"
      using Some m mv
      by (simp add: expose_folder_def p Let_def ensureDir_root dirname_folder)
    with n noop [of fs2] show ?thesis by auto
  qed
qed

lemma unexpose_twice:
  assumes r: "roots_are_dirs fs" and f: "safePattern f"
    and fp: "dir_or_missing [publicDir, f] fs" and fv: "dir_or_missing [privateDir, f] fs"
    and ex: "node_at [privateDir, f] fs \<noteq> None \<or> node_at [publicDir, f] fs \<noteq> None"
  shows "\<exists>b fs1. unexpose_folder fs f = (Ok b NoListing, fs1)
           \<and> r_visibility b = Some Hidden
           \<and> node_at [privateDir, f] fs1 \<noteq> None \<and> node_at [publicDir, f] fs1 = None
           \<and> unexpose_folder fs1 f = (Ok b NoListing, fs1)"
proof -
  note p = folder_paths [OF f]
  let ?b = "\<lparr>r_action = ''folder_unexposed'', r_visibility = Some Hidden,
              r_url = None, r_folder = Some f, r_file = None\<rparr>"
  have noop: "unexpose_folder fs' f = (Ok ?b NoListing, fs')"
    if "node_at [publicDir, f] fs' = None" and "node_at [privateDir, f] fs' \<noteq> None" for fs'
    using that by (simp add: unexpose_folder_def p Let_def)
  show ?thesis
  proof (cases "node_at [publicDir, f] fs")
    case None
    with ex have "node_at [privateDir, f] fs \<noteq> None" by simp
    with None noop [of fs] show ?thesis by auto
  next
    case (Some x)
    from r have d: "is_dir fs" and dr: "dir_or_missing [privateDir] fs"
      by (simp_all add: roots_are_dirs_def)
    from toggle_move [OF d dr fv _ Some dir_or_missingD [OF fp Some]] roots_distinct
    obtain fs1 fs2 where m: "mkdirs [privateDir] fs = (None, fs1)"
      and mv: "move (FPath [publicDir, f] False) (FPath [privateDir, f] False) fs1 = (None, fs2)"
      and n: "node_at [privateDir, f] fs2 = Some x" "node_at [publicDir, f] fs2 = None"
      by (metis root_names_ok)
    have "unexpose_folder fs f = (Ok ?b NoListing, fs2)"
      using Some m mv
      by (simp add: unexpose_folder_def p Let_def ensureDir_root dirname_folder)
    with n noop [of fs2] show ?thesis by auto
  qed
qed

lemma expose_not_found:
  assumes f: "safePattern f"
  shows "(\<exists>m fs'. expose_folder baseUrl fs f = (Fail 404 m, fs'))
     = (node_at [privateDir, f] fs = None \<and> node_at [publicDir, f] fs = None)"
  by (auto simp: expose_folder_def folder_paths [OF f] Let_def
      split: sum.splits prod.splits option.splits)

lemma unexpose_not_found:
  assumes f: "safePattern f"
  shows "(\<exists>m fs'. unexpose_folder fs f = (Fail 404 m, fs'))
     = (node_at [privateDir, f] fs = None \<and> node_at [publicDir, f] fs = None)"
  by (auto simp: unexpose_folder_def folder_paths [OF f] Let_def
      split: sum.splits prod.splits option.splits)

section \<open>Claims about exposing and unexposing\<close>

text \<open>
  C5. Take a disk on which the roots are directories (or missing) and a valid folder
  name \<open>f\<close> that exists in one of the roots and is a directory wherever it exists.
  Then \<open>expose\<close> succeeds with visibility \<open>exposed\<close> and leaves the folder in the public
  root only, and a second \<open>expose\<close> right after it gives the same answer and changes
  nothing; \<open>unexpose\<close> does the same towards the private root with visibility
  \<open>hidden\<close>. For every valid folder name and every disk, each of the two answers 404
  exactly when the folder is in neither root.
\<close>

theorem expose_unexpose_idempotent:
  "(roots_are_dirs fs \<and> safePattern f
      \<and> dir_or_missing [publicDir, f] fs \<and> dir_or_missing [privateDir, f] fs
      \<and> (node_at [privateDir, f] fs \<noteq> None \<or> node_at [publicDir, f] fs \<noteq> None) \<longrightarrow>
      (\<exists>b fs1. expose_folder baseUrl fs f = (Ok b NoListing, fs1)
           \<and> r_visibility b = Some Exposed
           \<and> node_at [publicDir, f] fs1 \<noteq> None \<and> node_at [privateDir, f] fs1 = None
           \<and> expose_folder baseUrl fs1 f = (Ok b NoListing, fs1))
      \<and> (\<exists>b fs1. unexpose_folder fs f = (Ok b NoListing, fs1)
           \<and> r_visibility b = Some Hidden
           \<and> node_at [privateDir, f] fs1 \<noteq> None \<and> node_at [publicDir, f] fs1 = None
           \<and> unexpose_folder fs1 f = (Ok b NoListing, fs1)))
   \<and> (safePattern f \<longrightarrow>
        (\<exists>m fs'. expose_folder baseUrl fs f = (Fail 404 m, fs'))
          = (node_at [privateDir, f] fs = None \<and> node_at [publicDir, f] fs = None)
        \<and> (\<exists>m fs'. unexpose_folder fs f = (Fail 404 m, fs'))
          = (node_at [privateDir, f] fs = None \<and> node_at [publicDir, f] fs = None))"
  using expose_twice [of fs f baseUrl] unexpose_twice [of fs f]
    expose_not_found [of f baseUrl fs] unexpose_not_found [of f fs]
  by blast

theorem expose_unexpose_idempotent_witness:
  "roots_are_dirs (Dir [(''public'', Dir [(''site'', Dir [])]),
                (''private'', Dir [(''docs'', Dir [(''a.txt'', File [104, 105])])])])
   \<and> safePattern ''docs''
   \<and> node_at [privateDir, ''docs'']
        (Dir [(''public'', Dir [(''site'', Dir [])]),
              (''private'', Dir [(''docs'', Dir [(''a.txt'', File [104, 105])])])]) \<noteq> None
   \<and> (\<exists>b fs1. expose_folder ''https://files.example''
          (Dir [(''public'', Dir [(''site'', Dir [])]),
                (''private'', Dir [(''docs'', Dir [(''a.txt'', File [104, 105])])])])
          ''docs'' = (Ok b NoListing, fs1)
        \<and> r_visibility b = Some Exposed
        \<and> expose_folder ''https://files.example'' fs1 ''docs'' = (Ok b NoListing, fs1))
   \<and> (\<exists>b fs1. unexpose_folder
          (Dir [(''public'', Dir [(''site'', Dir [])]),
                (''private'', Dir [(''docs'', Dir [(''a.txt'', File [104, 105])])])])
          ''docs'' = (Ok b NoListing, fs1)
        \<and> r_visibility b = Some Hidden
        \<and> unexpose_folder fs1 ''docs'' = (Ok b NoListing, fs1))
   \<and> safePattern ''gone''
   \<and> (\<exists>m fs'. expose_folder ''https://files.example'' (Dir []) ''gone'' = (Fail 404 m, fs'))
   \<and> (\<exists>m fs'. unexpose_folder (Dir []) ''gone'' = (Fail 404 m, fs'))"
proof -
  let ?fs = "Dir [(''public'', Dir [(''site'', Dir [])]),
                  (''private'', Dir [(''docs'', Dir [(''a.txt'', File [104, 105])])])]"
  have l: "roots_are_dirs ?fs" "dir_or_missing [publicDir, ''docs''] ?fs"
    "dir_or_missing [privateDir, ''docs''] ?fs"
    by (simp_all add: disk_eval node_eval publicDir_def privateDir_def)
  have s: "safePattern ''docs''" "safePattern ''gone''"
    by (simp_all add: validate_eval)
  have n: "node_at [privateDir, ''docs''] ?fs \<noteq> None"
    by (simp add: node_eval privateDir_def)
  have g: "node_at [privateDir, ''gone''] (Dir []) = None"
    "node_at [publicDir, ''gone''] (Dir []) = None"
    by simp_all
  show ?thesis
    using l s n g
      expose_unexpose_idempotent [of ?fs "''docs''" "''https://files.example''"]
      expose_unexpose_idempotent [of "Dir []" "''gone''" "''https://files.example''"]
    by blast
qed

section \<open>Listing the roots\<close>

text \<open>Whether a path names a directory.\<close>

definition dir_at :: "string list \<Rightarrow> node \<Rightarrow> bool" where
  "dir_at p fs = (case node_at p fs of None \<Rightarrow> False | Some x \<Rightarrow> is_dir x)"

lemma filterBoolean_append: "filterBoolean (xs @ ys) = filterBoolean xs @ filterBoolean ys"
  by (induction xs rule: filterBoolean.induct) auto

lemma filterBoolean_map_if:
  "filterBoolean (map (\<lambda>i. if P i then Some (g i) else None) xs) = map g (filter P xs)"
  by (induction xs) auto

lemma folderDetails_listing:
  assumes "node_at p fs = Some (Dir es)" and "length p \<le> 14"
    and "set items \<subseteq> set (filter name_ok (map fst es))"
  shows "folderDetails entry (FPath p False) fs items
     = Inr (map (\<lambda>i. if dir_at (p @ [i]) fs then Some (entry i) else None) items)"
  using assms(3)
proof (induction items)
  case Nil
  show ?case by simp
next
  case (Cons i items)
  then have "name_ok i" "i \<in> fst ` set es" by auto
  from dir_entry_member [OF this] obtain c where c: "dir_entry es i = Some c" ..
  with assms(1) have n: "node_at (p @ [i]) fs = Some c"
    by (simp add: node_at_append)
  from stat_node [OF n] assms(2) have "stat (path_child (FPath p False) i) fs = Inr c"
    by (simp add: path_child_def)
  with Cons n show ?case by (simp add: dir_at_def)
qed

lemma folderMap_step_map_of:
  "map_of (folderMap_step m e) k
     = (if k = d_name e \<and> (map_of m k = None \<or> d_visibility e = Exposed) then Some e
        else map_of m k)"
  by (auto simp: folderMap_step_def update_conv')

lemma folderMap_step_distinct:
  "distinct (map fst m) \<Longrightarrow> distinct (map fst (folderMap_step m e))"
  by (simp add: folderMap_step_def distinct_update)

lemma foldl_step_distinct:
  "distinct (map fst m) \<Longrightarrow> distinct (map fst (foldl folderMap_step m es))"
  by (induction es arbitrary: m) (simp_all add: folderMap_step_distinct)

lemma foldl_step_public:
  "map_of (foldl folderMap_step m (map (publicEntry baseUrl) items)) k
     = (if k \<in> set items then Some (publicEntry baseUrl k) else map_of m k)"
proof (induction items arbitrary: m)
  case Nil
  show ?case by simp
next
  case (Cons i items)
  show ?case
    by (simp add: Cons folderMap_step_map_of) (simp add: publicEntry_def)
qed

lemma foldl_step_private:
  "map_of (foldl folderMap_step m (map privateEntry items)) k
     = (case map_of m k of
          Some e \<Rightarrow> Some e
        | None \<Rightarrow> if k \<in> set items then Some (privateEntry k) else None)"
proof (induction items arbitrary: m)
  case Nil
  show ?case by (simp split: option.splits)
next
  case (Cons i items)
  show ?case
    by (simp add: Cons folderMap_step_map_of) (auto simp: privateEntry_def split: option.splits)
qed

lemma values_of_name:
  assumes "distinct (map fst m)" and "\<And>k e. map_of m k = Some e \<Longrightarrow> d_name e = k"
  shows "filter (\<lambda>e. d_name e = x) (map snd m)
     = (case map_of m x of None \<Rightarrow> [] | Some e \<Rightarrow> [e])"
  using assms
proof (induction m)
  case Nil
  show ?case by simp
next
  case (Cons a m)
  obtain k e where a: "a = (k, e)" by (cases a)
  from Cons.prems(1) a have nk: "map_of m k = None" and dm: "distinct (map fst m)"
    by (auto simp: map_of_eq_None_iff)
  from Cons.prems(2) [of k e] a have ke: "d_name e = k" by simp
  have "filter (\<lambda>e. d_name e = x) (map snd m)
     = (case map_of m x of None \<Rightarrow> [] | Some e \<Rightarrow> [e])"
  proof (rule Cons.IH [OF dm])
    fix k' e'
    assume s: "map_of m k' = Some e'"
    with nk have "k' \<noteq> k" by auto
    with s Cons.prems(2) [of k' e'] a show "d_name e' = k'" by simp
  qed
  with nk ke show ?case by (auto simp: a)
qed

lemma folderMap_values:
  "filter (\<lambda>e. d_name e = x)
     (map snd (folderMap (map (publicEntry baseUrl) ps @ map privateEntry qs)))
   = (if x \<in> set ps then [publicEntry baseUrl x]
      else if x \<in> set qs then [privateEntry x] else [])"
proof -
  let ?m = "folderMap (map (publicEntry baseUrl) ps @ map privateEntry qs)"
  have mo: "map_of ?m k
     = (if k \<in> set ps then Some (publicEntry baseUrl k)
        else if k \<in> set qs then Some (privateEntry k) else None)" for k
    by (simp add: folderMap_def foldl_step_private foldl_step_public)
  have d: "distinct (map fst ?m)"
    by (simp add: folderMap_def foldl_step_distinct del: foldl_append)
  have "filter (\<lambda>e. d_name e = x) (map snd ?m)
     = (case map_of ?m x of None \<Rightarrow> [] | Some e \<Rightarrow> [e])"
  proof (rule values_of_name [OF d])
    fix k e
    assume "map_of ?m k = Some e"
    then show "d_name e = k"
      by (auto simp: mo publicEntry_def privateEntry_def split: if_splits)
  qed
  then show ?thesis by (simp add: mo)
qed

lemma root_listing:
  assumes n: "node_at [r] fs = Some (Dir es)"
  obtains items where "readdir (FPath [r] False) fs = Inr items"
    and "folderDetails entry (FPath [r] False) fs items
       = Inr (map (\<lambda>i. if dir_at [r, i] fs then Some (entry i) else None) items)"
    and "\<And>x. x \<in> set (filter (\<lambda>i. dir_at [r, i] fs) items) \<longleftrightarrow> dir_at [r, x] fs"
proof
  let ?items = "filter name_ok (map fst es)"
  from stat_node [OF n] show "readdir (FPath [r] False) fs = Inr ?items"
    by (simp add: readdir_def)
  from folderDetails_listing [OF n, of ?items entry]
  show "folderDetails entry (FPath [r] False) fs ?items
       = Inr (map (\<lambda>i. if dir_at [r, i] fs then Some (entry i) else None) ?items)"
    by simp
  fix x
  have "name_ok x \<and> x \<in> fst ` set es" if "dir_at [r, x] fs"
  proof -
    from that n obtain c where "dir_entry es x = Some c"
      using node_at_append [of "[r]" "[x]" fs]
      by (auto simp: dir_at_def split: option.splits)
    then show ?thesis using dir_entry_ok dir_entry_Some_member by blast
  qed
  then show "x \<in> set (filter (\<lambda>i. dir_at [r, i] fs) ?items) \<longleftrightarrow> dir_at [r, x] fs"
    by auto
qed

lemma listRoot_result:
  assumes r: "roots_are_dirs fs"
  shows "\<exists>folders fs'. listRoot baseUrl fs =
           (Ok \<lparr>r_action = ''root_listed'', r_visibility = None, r_url = None,
                r_folder = None, r_file = None\<rparr> (Folders folders), fs')
     \<and> (\<forall>x. filter (\<lambda>e. d_name e = x) folders
             = (if dir_at [publicDir, x] fs then [publicEntry baseUrl x]
                else if dir_at [privateDir, x] fs then [privateEntry x] else []))
     \<and> (\<forall>x. node_at [publicDir, x] fs' = node_at [publicDir, x] fs
             \<and> node_at [privateDir, x] fs' = node_at [privateDir, x] fs)"
proof -
  from r have d: "is_dir fs" and dp: "dir_or_missing [publicDir] fs"
    and dv: "dir_or_missing [privateDir] fs"
    by (simp_all add: roots_are_dirs_def)
  from ensure_root_succeeds [OF d dp] obtain fs1 where m1: "mkdirs [publicDir] fs = (None, fs1)"
    by auto
  have d1: "is_dir fs1" using mkdirs_root_is_dir [OF m1] by simp
  have "node_at [privateDir] fs1 = node_at [privateDir] fs"
    by (rule mkdirs_frame [OF _ m1]) (simp add: publicDir_def privateDir_def)
  with dv have dv1: "dir_or_missing [privateDir] fs1" by (simp add: dir_or_missing_def)
  from ensure_root_succeeds [OF d1 dv1] obtain fs2 where m2: "mkdirs [privateDir] fs1 = (None, fs2)"
    by auto
  from mkdirs_makes_dir [OF m1] obtain ps0 where "node_at [publicDir] fs1 = Some (Dir ps0)" ..
  moreover have "node_at [publicDir] fs2 = node_at [publicDir] fs1"
    by (rule mkdirs_frame [OF _ m2]) (simp add: publicDir_def privateDir_def)
  ultimately have np: "node_at [publicDir] fs2 = Some (Dir ps0)" by simp
  from mkdirs_makes_dir [OF m2] obtain qs0 where nq: "node_at [privateDir] fs2 = Some (Dir qs0)" ..
  have same: "node_at [a, x] fs2 = node_at [a, x] fs" for a x
    using mkdirs_frame [OF _ m2, of "[a, x]"] mkdirs_frame [OF _ m1, of "[a, x]"] by simp
  then have da: "dir_at [a, x] fs2 = dir_at [a, x] fs" for a x
    by (simp add: dir_at_def)
  from root_listing [OF np, of "publicEntry baseUrl"] obtain ps where
    lp: "readdir (FPath [publicDir] False) fs2 = Inr ps"
      "folderDetails (publicEntry baseUrl) (FPath [publicDir] False) fs2 ps
         = Inr (map (\<lambda>i. if dir_at [publicDir, i] fs2 then Some (publicEntry baseUrl i)
                          else None) ps)"
      "\<And>x. x \<in> set (filter (\<lambda>i. dir_at [publicDir, i] fs2) ps) \<longleftrightarrow> dir_at [publicDir, x] fs2"
    by blast
  from root_listing [OF nq, of privateEntry] obtain qs where
    lq: "readdir (FPath [privateDir] False) fs2 = Inr qs"
      "folderDetails privateEntry (FPath [privateDir] False) fs2 qs
         = Inr (map (\<lambda>i. if dir_at [privateDir, i] fs2 then Some (privateEntry i)
                          else None) qs)"
      "\<And>x. x \<in> set (filter (\<lambda>i. dir_at [privateDir, i] fs2) qs) \<longleftrightarrow> dir_at [privateDir, x] fs2"
    by blast
  let ?ps = "filter (\<lambda>i. dir_at [publicDir, i] fs2) ps"
  let ?qs = "filter (\<lambda>i. dir_at [privateDir, i] fs2) qs"
  let ?folders = "map snd (folderMap (map (publicEntry baseUrl) ?ps @ map privateEntry ?qs))"
  have "listRoot baseUrl fs =
           (Ok \<lparr>r_action = ''root_listed'', r_visibility = None, r_url = None,
                r_folder = None, r_file = None\<rparr> (Folders ?folders), fs2)"
    using m1 m2
    by (simp add: listRoot_def Let_def path_join_root ensureDir_root lp(1,2) lq(1,2)
        filterBoolean_append filterBoolean_map_if)
  moreover have "filter (\<lambda>e. d_name e = x) ?folders
             = (if dir_at [publicDir, x] fs then [publicEntry baseUrl x]
                else if dir_at [privateDir, x] fs then [privateEntry x] else [])" for x
    using lp(3) [of x] lq(3) [of x] by (simp only: folderMap_values da) 
  ultimately show ?thesis using same by blast
qed

section \<open>Claims about listing the roots\<close>

text \<open>
  C6. On a disk whose roots are directories (or missing), \<open>listRoot\<close> succeeds and
  lists the directories at the top of the two roots: a name that is a directory in the
  public root has exactly one entry, tagged \<open>exposed\<close> with its public URL, also when
  the private root has a folder of that name; a name that is a directory in the private
  root only has exactly one entry, tagged \<open>hidden\<close> with no URL; any other name has no
  entry. The folders on the disk stay as they are.
\<close>

theorem list_root_deduplicates:
  assumes "roots_are_dirs fs"
  shows "\<exists>folders fs'. listRoot baseUrl fs =
           (Ok \<lparr>r_action = ''root_listed'', r_visibility = None, r_url = None,
                r_folder = None, r_file = None\<rparr> (Folders folders), fs')
     \<and> (\<forall>x. filter (\<lambda>e. d_name e = x) folders
             = (if dir_at [publicDir, x] fs
                then [\<lparr>d_name = x, d_visibility = Exposed,
                       d_url = Some (buildPublicUrl baseUrl x None)\<rparr>]
                else if dir_at [privateDir, x] fs
                then [\<lparr>d_name = x, d_visibility = Hidden, d_url = None\<rparr>]
                else []))
     \<and> (\<forall>x. node_at [publicDir, x] fs' = node_at [publicDir, x] fs
             \<and> node_at [privateDir, x] fs' = node_at [privateDir, x] fs)"
  using listRoot_result [OF assms, of baseUrl]
  unfolding publicEntry_def privateEntry_def .

theorem list_root_deduplicates_witness:
  "roots_are_dirs
     (Dir [(''public'', Dir [(''docs'', Dir []), (''readme.txt'', File [1])]),
           (''private'', Dir [(''docs'', Dir [(''a.txt'', File [2])]), (''drafts'', Dir [])])])
   \<and> (\<exists>folders fs'. listRoot ''https://files.example''
         (Dir [(''public'', Dir [(''docs'', Dir []), (''readme.txt'', File [1])]),
               (''private'', Dir [(''docs'', Dir [(''a.txt'', File [2])]), (''drafts'', Dir [])])])
         = (Ok \<lparr>r_action = ''root_listed'', r_visibility = None, r_url = None,
                r_folder = None, r_file = None\<rparr> (Folders folders), fs')
       \<and> filter (\<lambda>e. d_name e = ''docs'') folders
           = [\<lparr>d_name = ''docs'', d_visibility = Exposed,
                d_url = Some ''https://files.example/public/docs/''\<rparr>]
       \<and> filter (\<lambda>e. d_name e = ''drafts'') folders
           = [\<lparr>d_name = ''drafts'', d_visibility = Hidden, d_url = None\<rparr>]
       \<and> filter (\<lambda>e. d_name e = ''readme.txt'') folders = [])"
proof -
  let ?fs = "Dir [(''public'', Dir [(''docs'', Dir []), (''readme.txt'', File [1])]),
      (''private'', Dir [(''docs'', Dir [(''a.txt'', File [2])]), (''drafts'', Dir [])])]"
  have r: "roots_are_dirs ?fs"
    by (simp add: disk_eval node_eval publicDir_def privateDir_def)
  have d: "dir_at [publicDir, ''docs''] ?fs" "\<not> dir_at [publicDir, ''drafts''] ?fs"
    "dir_at [privateDir, ''drafts''] ?fs" "\<not> dir_at [publicDir, ''readme.txt''] ?fs"
    "\<not> dir_at [privateDir, ''readme.txt''] ?fs"
    by (simp_all add: dir_at_def node_eval publicDir_def privateDir_def)
  from list_root_deduplicates [OF r, of "''https://files.example''"]
  obtain folders fs' where l: "listRoot ''https://files.example'' ?fs
         = (Ok \<lparr>r_action = ''root_listed'', r_visibility = None, r_url = None,
                r_folder = None, r_file = None\<rparr> (Folders folders), fs')"
    and f: "\<And>x. filter (\<lambda>e. d_name e = x) folders
             = (if dir_at [publicDir, x] ?fs
                then [\<lparr>d_name = x, d_visibility = Exposed,
                       d_url = Some (buildPublicUrl ''https://files.example'' x None)\<rparr>]
                else if dir_at [privateDir, x] ?fs
                then [\<lparr>d_name = x, d_visibility = Hidden, d_url = None\<rparr>]
                else [])"
    by blast
  from f [of "''docs''"] f [of "''drafts''"] f [of "''readme.txt''"] d
  have "filter (\<lambda>e. d_name e = ''docs'') folders
           = [\<lparr>d_name = ''docs'', d_visibility = Exposed,
                d_url = Some ''https://files.example/public/docs/''\<rparr>]"
    "filter (\<lambda>e. d_name e = ''drafts'') folders
           = [\<lparr>d_name = ''drafts'', d_visibility = Hidden, d_url = None\<rparr>]"
    "filter (\<lambda>e. d_name e = ''readme.txt'') folders = []"
    by (simp_all add: buildPublicUrl_def)
  with r l show ?thesis by blast
qed

section \<open>Deleting, renaming and listing\<close>

lemma file_paths:
  assumes "validatePath f (Some n) = Inr v" and "n \<noteq> []"
  shows "v = \<lparr>safeFolder = f, safeFilename = Some n\<rparr>"
    and "path_join [publicDir, f, n] = FPath (publicDir # f # name_segs n) (last n = CHR ''/'')"
    and "path_join [privateDir, f, n] = FPath (privateDir # f # name_segs n) (last n = CHR ''/'')"
  using accepted_filename [OF assms] path_join_file [OF _ _ assms(2), of _ f] by simp_all

lemma remove_existing:
  "pathExists p fs \<Longrightarrow> remove p fs = Inr (remove_at (segs p) fs)"
  by (auto simp: pathExists_def remove_def split: sum.splits)

lemma not_pathExists_removed:
  "segs p \<noteq> [] \<Longrightarrow> \<not> pathExists p (remove_at (segs p) fs)"
  using remove_at_below [of "segs p" "segs p" fs] by (auto simp: pathExists_node_at)

subsection \<open>deleteItem\<close>

lemma deleteFile_result:
  assumes v: "validatePath f (Some n) = Inr v" and ne: "n \<noteq> []"
  shows "deleteFile fs f (Some n)
     = (if pathExists (path_join [publicDir, f, n]) fs
        then (Ok \<lparr>r_action = ''file_deleted'', r_visibility = Some Hidden, r_url = None,
                  r_folder = Some f, r_file = Some n\<rparr> NoListing,
              remove_at (publicDir # f # name_segs n) fs)
        else if pathExists (path_join [privateDir, f, n]) fs
        then (Ok \<lparr>r_action = ''file_deleted'', r_visibility = Some Hidden, r_url = None,
                  r_folder = Some f, r_file = Some n\<rparr> NoListing,
              remove_at (privateDir # f # name_segs n) fs)
        else (Fail 404 (Msg ''File not found''), fs))"
  using file_paths [OF v ne] v
  by (auto simp: deleteFile_def Let_def dest!: remove_existing)

lemma deleteFolder_result:
  assumes f: "safePattern f"
  shows "deleteFolder fs f
     = (if node_at [publicDir, f] fs = None \<and> node_at [privateDir, f] fs = None
        then (Fail 404 (Msg ''Folder not found''), fs)
        else (Ok \<lparr>r_action = ''folder_deleted'', r_visibility = Some Hidden, r_url = None,
                  r_folder = Some f, r_file = None\<rparr> NoListing,
              remove_at [privateDir, f] (remove_at [publicDir, f] fs)))"
proof -
  note p = folder_paths [OF f]
  have rm: "remove (FPath [r, f] False) fs' = Inr (remove_at [r, f] fs')"
    if "node_at [r, f] fs' \<noteq> None" for r fs'
    using that remove_existing [of "FPath [r, f] False" fs'] by simp
  have keep: "node_at [privateDir, f] (remove_at [publicDir, f] fs) = node_at [privateDir, f] fs"
    by (rule remove_at_frame) (simp_all add: publicDir_def privateDir_def)
  show ?thesis
  proof (cases "node_at [publicDir, f] fs = None")
    case True
    then have same: "remove_at [publicDir, f] fs = fs" by (rule remove_at_missing)
    show ?thesis
    proof (cases "node_at [privateDir, f] fs = None")
      case True
      with \<open>node_at [publicDir, f] fs = None\<close> show ?thesis
        by (simp add: deleteFolder_def p Let_def)
    next
      case False
      with \<open>node_at [publicDir, f] fs = None\<close> rm [OF False] same show ?thesis
        by (simp add: deleteFolder_def p Let_def)
    qed
  next
    case False
    note r1 = rm [OF False]
    show ?thesis
    proof (cases "node_at [privateDir, f] fs = None")
      case True
      with keep have "node_at [privateDir, f] (remove_at [publicDir, f] fs) = None" by simp
      with False r1 remove_at_missing [OF this] show ?thesis
        by (simp add: deleteFolder_def p Let_def)
    next
      case n: False
      with keep have "node_at [privateDir, f] (remove_at [publicDir, f] fs) \<noteq> None" by simp
      with False r1 rm [OF this] show ?thesis
        by (simp add: deleteFolder_def p Let_def)
    qed
  qed
qed

subsection \<open>renameItem\<close>

lemma renameFile_result:
  assumes v: "validatePath f (Some old) = Inr v" and ne: "old \<noteq> []"
    and v': "validatePath f (Some new) = Inr v'" and ne': "new \<noteq> []"
  shows "renameFile baseUrl fs f old new
     = (if pathExists (path_join [publicDir, f, old]) fs
        then (case move (path_join [publicDir, f, old]) (path_join [publicDir, f, new]) fs of
                (Some e, fs1) \<Rightarrow> (Fail 400 (FsFailure e), fs1)
              | (None, fs1) \<Rightarrow>
                  (Ok \<lparr>r_action = ''renamed'', r_visibility = Some Exposed,
                       r_url = Some (buildPublicUrl baseUrl f (Some new)),
                       r_folder = Some f, r_file = Some new\<rparr> NoListing, fs1))
        else if pathExists (path_join [privateDir, f, old]) fs
        then (case move (path_join [privateDir, f, old]) (path_join [privateDir, f, new]) fs of
                (Some e, fs1) \<Rightarrow> (Fail 400 (FsFailure e), fs1)
              | (None, fs1) \<Rightarrow>
                  (Ok \<lparr>r_action = ''renamed'', r_visibility = Some Hidden,
                       r_url = None,
                       r_folder = Some f, r_file = Some new\<rparr> NoListing, fs1))
        else (Fail 404 (Msg ''File not found''), fs))"
  using file_paths(1) [OF v ne] file_paths(1) [OF v' ne'] v v'
  by (simp add: renameFile_def Let_def split: prod.splits option.splits)

lemma renameFolder_result:
  assumes f: "safePattern f" and g: "safePattern g"
  shows "renameFolder baseUrl fs f g
     = (if node_at [publicDir, f] fs \<noteq> None
        then (case move (FPath [publicDir, f] False) (FPath [publicDir, g] False) fs of
                (Some e, fs1) \<Rightarrow> (Fail 400 (FsFailure e), fs1)
              | (None, fs1) \<Rightarrow>
                  (Ok \<lparr>r_action = ''renamed'', r_visibility = Some Exposed,
                       r_url = Some (buildPublicUrl baseUrl g None),
                       r_folder = Some g, r_file = None\<rparr> NoListing, fs1))
        else if node_at [privateDir, f] fs \<noteq> None
        then (case move (FPath [privateDir, f] False) (FPath [privateDir, g] False) fs of
                (Some e, fs1) \<Rightarrow> (Fail 400 (FsFailure e), fs1)
              | (None, fs1) \<Rightarrow>
                  (Ok \<lparr>r_action = ''renamed'', r_visibility = Some Hidden,
                       r_url = None,
                       r_folder = Some g, r_file = None\<rparr> NoListing, fs1))
        else (Fail 404 (Msg ''Folder not found''), fs))"
  using folder_paths [OF f] folder_paths [OF g]
  by (simp add: renameFolder_def Let_def split: prod.splits option.splits)

text \<open>
  The rename handler reaches the two functions above once its required fields are
  there, and the binary upload reaches the upload core once its headers are.
\<close>

lemma renameItem_file:
  "truthy folder \<Longrightarrow> truthy filename \<Longrightarrow> truthy newName \<Longrightarrow>
     renameItem baseUrl fs (Some ''file'') folder filename newName
       = renameFile baseUrl fs (str folder) (str filename) (str newName)"
  by (simp add: renameItem_def)

lemma renameItem_folder:
  "truthy folder \<Longrightarrow> truthy newName \<Longrightarrow>
     renameItem baseUrl fs (Some ''folder'') folder filename newName
       = renameFolder baseUrl fs (str folder) (str newName)"
  by (simp add: renameItem_def)

lemma upload_octet_stream:
  "truthy folder \<Longrightarrow> truthy filename \<Longrightarrow>
     upload baseUrl fs (OctetStream folder filename expose fileData)
       = storeFile baseUrl fs (str folder) (str filename) fileData (expose = Some ''true'')"
  by simp

text \<open>A move inside one root leaves the other root as it was, whatever its outcome.\<close>

lemma move_in_root_frame:
  assumes "move (FPath (a # p) s) (FPath (a # q) t) fs = (r, fs')" and "a \<noteq> b"
  shows "node_at [b] fs' = node_at [b] fs"
  using assms(2) by (intro move_frame [OF assms(1)]) simp_all

subsection \<open>listFolder\<close>

text \<open>The entries \<open>listFolder\<close> reports for a directory: its regular files, by name and size.\<close>

fun files_of :: "node \<Rightarrow> file_entry list" where
  "files_of (Dir es) =
     filterBoolean
       (map (\<lambda>name. case dir_entry es name of
                       Some (File b) \<Rightarrow> Some \<lparr>e_name = name, e_size = length b\<rparr>
                     | _ \<Rightarrow> None)
            (filter name_ok (map fst es)))"
| "files_of (File b) = []"

lemma fileDetails_listing:
  assumes "node_at p fs = Some (Dir es)" and "length p \<le> 14"
    and "set items \<subseteq> set (filter name_ok (map fst es))"
  shows "fileDetails (FPath p False) fs items
     = Inr (map (\<lambda>name. case dir_entry es name of
                          Some (File b) \<Rightarrow> Some \<lparr>e_name = name, e_size = length b\<rparr>
                        | _ \<Rightarrow> None) items)"
  using assms(3)
proof (induction items)
  case Nil
  show ?case by simp
next
  case (Cons i items)
  then have "name_ok i" "i \<in> fst ` set es" by auto
  from dir_entry_member [OF this] obtain c where c: "dir_entry es i = Some c" ..
  with assms(1) have n: "node_at (p @ [i]) fs = Some c"
    by (simp add: node_at_append)
  from stat_node [OF n] assms(2) have "stat (path_child (FPath p False) i) fs = Inr c"
    by (simp add: path_child_def)
  with Cons c show ?case by (cases c) simp_all
qed

lemma listFolder_result:
  assumes f: "safePattern f"
  shows "listFolder baseUrl fs f
     = (case node_at [publicDir, f] fs of
          Some (Dir es) \<Rightarrow>
            (Ok \<lparr>r_action = ''folder_listed'', r_visibility = Some Exposed,
                 r_url = Some (buildPublicUrl baseUrl f None),
                 r_folder = Some f, r_file = None\<rparr> (Files (files_of (Dir es))), fs)
        | Some (File b) \<Rightarrow> (Fail 400 (FsFailure ENOTDIR), fs)
        | None \<Rightarrow>
            (case node_at [privateDir, f] fs of
               Some (Dir es) \<Rightarrow>
                 (Ok \<lparr>r_action = ''folder_listed'', r_visibility = Some Hidden,
                      r_url = None,
                      r_folder = Some f, r_file = None\<rparr> (Files (files_of (Dir es))), fs)
             | Some (File b) \<Rightarrow> (Fail 400 (FsFailure ENOTDIR), fs)
             | None \<Rightarrow> (Fail 404 (Msg ''Folder not found''), fs)))"
proof -
  note p = folder_paths [OF f]
  have rd: "readdir (FPath [r, f] False) fs = Inr (filter name_ok (map fst es))
      \<and> fileDetails (FPath [r, f] False) fs (filter name_ok (map fst es))
        = Inr (map (\<lambda>name. case dir_entry es name of
                          Some (File b) \<Rightarrow> Some \<lparr>e_name = name, e_size = length b\<rparr>
                        | _ \<Rightarrow> None) (filter name_ok (map fst es)))"
    if "node_at [r, f] fs = Some (Dir es)" for r es
    using stat_node [OF that] fileDetails_listing [OF that, of "filter name_ok (map fst es)"]
    by (simp add: readdir_def)
  have rf: "readdir (FPath [r, f] False) fs = Inl ENOTDIR"
    if "node_at [r, f] fs = Some (File b)" for r b
    using stat_node [OF that] by (simp add: readdir_def)
  show ?thesis
  proof (cases "node_at [publicDir, f] fs")
    case None
    show ?thesis
    proof (cases "node_at [privateDir, f] fs")
      case n: None
      with None show ?thesis by (simp add: listFolder_def p Let_def)
    next
      case (Some x)
      show ?thesis
      proof (cases x)
        case (File b)
        with None Some rf [of privateDir b] show ?thesis
          by (simp add: listFolder_def p Let_def)
      next
        case (Dir es)
        with None Some rd [of privateDir es] show ?thesis
          by (simp add: listFolder_def p Let_def del: map_map)
      qed
    qed
  next
    case (Some x)
    show ?thesis
    proof (cases x)
      case (File b)
      with Some rf [of publicDir b] show ?thesis
        by (simp add: listFolder_def p Let_def)
    next
      case (Dir es)
      with Some rd [of publicDir es] show ?thesis
        by (simp add: listFolder_def p Let_def del: map_map)
    qed
  qed
qed

subsection \<open>What a successful rename does\<close>

lemma move_in_root:
  assumes mv: "move (FPath (a # p) s) (FPath (a # q) t) fs = (None, fs')" and ab: "a \<noteq> b"
  shows "node_at (a # q) fs' = node_at (a # p) fs"
    and "node_at (a # p) fs \<noteq> None"
    and "node_at (a # p) fs' = None"
    and "node_at (b # r) fs' = node_at (b # r) fs"
  using move_success(3,4,5) [OF mv] move_success(6) [OF mv, of "b # r"] ab by simp_all

lemma pathExists_cong:
  "node_at (segs p) fs' = node_at (segs p) fs \<Longrightarrow> pathExists p fs' = pathExists p fs"
  by (simp add: pathExists_node_at)

lemma pathExists_None: "node_at (segs p) fs = None \<Longrightarrow> \<not> pathExists p fs"
  by (simp add: pathExists_node_at)

lemma renameFile_moves:
  assumes v: "validatePath f (Some old) = Inr v" and ne: "old \<noteq> []"
    and v': "validatePath f (Some new) = Inr v'" and ne': "new \<noteq> []"
    and ok: "renameFile baseUrl fs f old new = (Ok b l, fs')"
  shows "(if pathExists (path_join [publicDir, f, old]) fs
          then r_visibility b = Some Exposed
             \<and> node_at (publicDir # f # name_segs old) fs \<noteq> None
             \<and> node_at (publicDir # f # name_segs new) fs'
                 = node_at (publicDir # f # name_segs old) fs
             \<and> node_at (publicDir # f # name_segs old) fs' = None
             \<and> node_at [privateDir] fs' = node_at [privateDir] fs
             \<and> pathExists (path_join [privateDir, f, old]) fs'
                 = pathExists (path_join [privateDir, f, old]) fs
          else r_visibility b = Some Hidden
             \<and> node_at (privateDir # f # name_segs old) fs \<noteq> None
             \<and> node_at (privateDir # f # name_segs new) fs'
                 = node_at (privateDir # f # name_segs old) fs
             \<and> node_at (privateDir # f # name_segs old) fs' = None
             \<and> node_at [publicDir] fs' = node_at [publicDir] fs
             \<and> \<not> pathExists (path_join [privateDir, f, old]) fs')
         \<and> \<not> pathExists (path_join [publicDir, f, old]) fs'"
proof -
  note po = file_paths(2,3) [OF v ne]
  note pn = file_paths(2,3) [OF v' ne']
  note rr = renameFile_result [OF v ne v' ne', of baseUrl fs]
  show ?thesis
  proof (cases "pathExists (path_join [publicDir, f, old]) fs")
    case True
    with ok rr have mv: "move (path_join [publicDir, f, old]) (path_join [publicDir, f, new]) fs
        = (None, fs')" and b: "r_visibility b = Some Exposed"
      by (auto split: prod.splits option.splits)
    note m = move_in_root [OF mv [unfolded po pn] roots_distinct]
    have "pathExists (path_join [privateDir, f, old]) fs'
        = pathExists (path_join [privateDir, f, old]) fs"
      unfolding po by (rule pathExists_cong) (simp add: m(4))
    moreover have "\<not> pathExists (path_join [publicDir, f, old]) fs'"
      unfolding po by (rule pathExists_None) (simp add: m(3))
    ultimately show ?thesis
      using True b m(1,2,3) m(4) [of "[]"] by simp
  next
    case False
    with ok rr have mv: "move (path_join [privateDir, f, old]) (path_join [privateDir, f, new]) fs
        = (None, fs')" and b: "r_visibility b = Some Hidden"
      by (auto split: prod.splits option.splits if_splits)
    note m = move_in_root [OF mv [unfolded po pn] roots_distinct [symmetric]]
    have "pathExists (path_join [publicDir, f, old]) fs'
        = pathExists (path_join [publicDir, f, old]) fs"
      unfolding po by (rule pathExists_cong) (simp add: m(4))
    moreover have "\<not> pathExists (path_join [privateDir, f, old]) fs'"
      unfolding po by (rule pathExists_None) (simp add: m(3))
    ultimately show ?thesis
      using False b m(1,2,3) m(4) [of "[]"] by simp
  qed
qed

lemma renameFolder_moves:
  assumes f: "safePattern f" and g: "safePattern g"
    and ok: "renameFolder baseUrl fs f g = (Ok b l, fs')"
  shows "(if node_at [publicDir, f] fs \<noteq> None
          then r_visibility b = Some Exposed
             \<and> node_at [publicDir, g] fs' = node_at [publicDir, f] fs
             \<and> node_at [publicDir, f] fs' = None
             \<and> node_at [privateDir] fs' = node_at [privateDir] fs
          else r_visibility b = Some Hidden
             \<and> node_at [privateDir, f] fs \<noteq> None
             \<and> node_at [privateDir, g] fs' = node_at [privateDir, f] fs
             \<and> node_at [privateDir, f] fs' = None
             \<and> node_at [publicDir] fs' = node_at [publicDir] fs)
         \<and> node_at [publicDir, f] fs' = None"
proof -
  note rr = renameFolder_result [OF f g, of baseUrl fs]
  show ?thesis
  proof (cases "node_at [publicDir, f] fs \<noteq> None")
    case True
    with ok rr have mv: "move (FPath [publicDir, f] False) (FPath [publicDir, g] False) fs
        = (None, fs')" and b: "r_visibility b = Some Exposed"
      by (auto split: prod.splits option.splits)
    note m = move_in_root [OF mv roots_distinct]
    show ?thesis using True b m(1,3) m(4) [of "[]"] by simp
  next
    case False
    with ok rr have mv: "move (FPath [privateDir, f] False) (FPath [privateDir, g] False) fs
        = (None, fs')" and b: "r_visibility b = Some Hidden"
      by (auto split: prod.splits option.splits if_splits)
    note m = move_in_root [OF mv roots_distinct [symmetric]]
    show ?thesis using False b m(1,2,3) m(4) [of "[]"] m(4) [of "[f]"] by simp
  qed
qed

subsection \<open>When a rename succeeds\<close>

lemma parent_is_dir:
  "node_at (p @ [s]) fs = Some x \<Longrightarrow> \<exists>ds. node_at p fs = Some (Dir ds)"
proof -
  assume a: "node_at (p @ [s]) fs = Some x"
  then obtain n where n: "node_at p fs = Some n" and c: "node_at [s] n = Some x"
    by (auto simp: node_at_append split: option.splits)
  from c obtain ds where "n = Dir ds" by (cases n) auto
  with n show ?thesis by simp
qed

lemma sibling_move_succeeds:
  assumes x: "node_at (p @ [s]) fs = Some x" and st: "s \<noteq> t"
    and ok: "name_ok t" and len: "length p \<le> 14"
    and kind: "\<And>y. node_at (p @ [t]) fs = Some y \<Longrightarrow> is_dir y = is_dir x"
  shows "\<exists>fs'. move (FPath (p @ [s]) False) (FPath (p @ [t]) False) fs = (None, fs')"
proof -
  from parent_is_dir [OF x] obtain ds where ds: "node_at p fs = Some (Dir ds)" ..
  have names: "name_ok u" if "u \<in> set (p @ [s])" for u
    using node_at_names_ok [OF x that] .
  show ?thesis
  proof (rule move_succeeds [OF x])
    show "\<not> prefix (p @ [s]) (p @ [t])" "\<not> prefix (p @ [t]) (p @ [s])"
      using st by simp_all
    show "node_at (butlast (p @ [t])) fs = Some (Dir ds)" using ds by simp
    show "name_ok (last (p @ [t]))" using ok by simp
    show "path_error (FPath (p @ [s]) False) = None"
      using names len by (intro path_error_ok) auto
    show "path_error (FPath (p @ [t]) False) = None"
      using names ok len by (intro path_error_ok) auto
    show "path_error (FPath (butlast (p @ [t])) False) = None"
      using names len by (intro path_error_ok) auto
    show "\<And>y. node_at (p @ [t]) fs = Some y \<Longrightarrow> is_dir y = is_dir x" by (rule kind)
  qed
qed

lemma renameFile_succeeds:
  assumes v: "validatePath f (Some old) = Inr v" and ne: "old \<noteq> []"
    and v': "validatePath f (Some new) = Inr v'" and ne': "new \<noteq> []"
    and so: "CHR ''/'' \<notin> set old" and sn: "CHR ''/'' \<notin> set new" and d: "old \<noteq> new"
    and okn: "name_ok new"
    and x: "node_at [r, f, old] fs = Some x"
    and r: "r = (if node_at [publicDir, f, old] fs \<noteq> None then publicDir else privateDir)"
    and kind: "\<And>y. node_at [r, f, new] fs = Some y \<Longrightarrow> is_dir y = is_dir x"
  shows "\<exists>b fs'. renameFile baseUrl fs f old new = (Ok b NoListing, fs')"
proof -
  note so' = accepted_name_segs [OF v ne so]
  note sn' = accepted_name_segs [OF v' ne' sn]
  have po: "path_join [a, f, old] = FPath [a, f, old] False"
    and pn: "path_join [a, f, new] = FPath [a, f, new] False"
    if "a = publicDir \<or> a = privateDir" for a
    using that file_paths(2,3) [OF v ne] file_paths(2,3) [OF v' ne'] so' sn' by auto
  from sibling_move_succeeds [of "[r, f]" old fs x new] x d kind okn
  obtain fs' where mv: "move (FPath [r, f, old] False) (FPath [r, f, new] False) fs = (None, fs')"
    by auto
  show ?thesis
  proof (cases "node_at [publicDir, f, old] fs \<noteq> None")
    case True
    with r mv show ?thesis
      by (simp add: renameFile_result [OF v ne v' ne'] po pn)
  next
    case False
    with r x mv show ?thesis
      by (simp add: renameFile_result [OF v ne v' ne'] po pn)
  qed
qed

lemma renameFolder_succeeds:
  assumes f: "safePattern f" and g: "safePattern g" and d: "f \<noteq> g"
    and okg: "name_ok g"
    and x: "node_at [r, f] fs = Some x"
    and r: "r = (if node_at [publicDir, f] fs \<noteq> None then publicDir else privateDir)"
    and kind: "\<And>y. node_at [r, g] fs = Some y \<Longrightarrow> is_dir y = is_dir x"
  shows "\<exists>b fs'. renameFolder baseUrl fs f g = (Ok b NoListing, fs')"
proof -
  from sibling_move_succeeds [of "[r]" f fs x g] x d kind okg
  obtain fs' where mv: "move (FPath [r, f] False) (FPath [r, g] False) fs = (None, fs')"
    by auto
  show ?thesis
  proof (cases "node_at [publicDir, f] fs \<noteq> None")
    case True
    with r mv show ?thesis
      by (simp add: renameFolder_result [OF f g])
  next
    case False
    with r x mv show ?thesis
      by (simp add: renameFolder_result [OF f g])
  qed
qed

text \<open>
  A rename that succeeds has put the item under the new name, so the new name is one a
  directory can hold: a rename to a longer name, or to a name with a NUL byte, fails.
\<close>

lemma renameFile_Ok_name:
  assumes v: "validatePath f (Some old) = Inr v" and ne: "old \<noteq> []"
    and v': "validatePath f (Some new) = Inr v'" and ne': "new \<noteq> []"
    and sn: "CHR ''/'' \<notin> set new"
    and ok: "renameFile baseUrl fs f old new = (Ok b l, fs')"
  shows "name_ok new"
proof -
  note s = accepted_name_segs [OF v' ne' sn]
  from renameFile_moves [OF v ne v' ne' ok] s
  have "node_at [publicDir, f, new] fs' \<noteq> None \<or> node_at [privateDir, f, new] fs' \<noteq> None"
    by (auto split: if_splits)
  then show ?thesis using node_at_names_ok [of _ fs' _ new] by auto
qed

lemma renameFolder_Ok_name:
  assumes f: "safePattern f" and g: "safePattern g"
    and ok: "renameFolder baseUrl fs f g = (Ok b l, fs')"
  shows "name_ok g"
proof -
  from renameFolder_moves [OF f g ok]
  have "node_at [publicDir, g] fs' \<noteq> None \<or> node_at [privateDir, g] fs' \<noteq> None"
    by (auto split: if_splits)
  then show ?thesis using node_at_names_ok [of _ fs' _ g] by auto
qed

subsection \<open>What expose and unexpose move\<close>

lemma expose_moves_hidden_copy:
  assumes f: "safePattern f" and ex: "node_at [privateDir, f] fs \<noteq> None"
    and ok: "expose_folder baseUrl fs f = (Ok b l, fs')"
  shows "node_at [publicDir, f] fs' = node_at [privateDir, f] fs"
    and "node_at [privateDir, f] fs' = None"
proof -
  note p = folder_paths [OF f]
  from ok ex obtain fs1 where m: "mkdirs [publicDir] fs = (None, fs1)"
    and mv: "move (FPath [privateDir, f] False) (FPath [publicDir, f] False) fs1 = (None, fs')"
    by (auto simp: expose_folder_def p Let_def ensureDir_root dirname_folder
        split: sum.splits prod.splits option.splits)
  have "node_at [privateDir, f] fs1 = node_at [privateDir, f] fs"
    by (rule mkdirs_frame [OF _ m]) simp
  with move_success(4,5) [OF mv]
  show "node_at [publicDir, f] fs' = node_at [privateDir, f] fs"
    and "node_at [privateDir, f] fs' = None" by simp_all
qed

lemma unexpose_moves_exposed_copy:
  assumes f: "safePattern f" and ex: "node_at [publicDir, f] fs \<noteq> None"
    and ok: "unexpose_folder fs f = (Ok b l, fs')"
  shows "node_at [privateDir, f] fs' = node_at [publicDir, f] fs"
    and "node_at [publicDir, f] fs' = None"
proof -
  note p = folder_paths [OF f]
  from ok ex obtain fs1 where m: "mkdirs [privateDir] fs = (None, fs1)"
    and mv: "move (FPath [publicDir, f] False) (FPath [privateDir, f] False) fs1 = (None, fs')"
    by (auto simp: unexpose_folder_def p Let_def ensureDir_root dirname_folder
        split: sum.splits prod.splits option.splits)
  have "node_at [publicDir, f] fs1 = node_at [publicDir, f] fs"
    by (rule mkdirs_frame [OF _ m]) simp
  with move_success(4,5) [OF mv]
  show "node_at [privateDir, f] fs' = node_at [publicDir, f] fs"
    and "node_at [publicDir, f] fs' = None" by simp_all
qed

subsection \<open>Which copy the other handlers take\<close>

lemma deleteFile_exposed:
  assumes v: "validatePath f (Some n) = Inr v" and ne: "n \<noteq> []"
    and ex: "pathExists (path_join [publicDir, f, n]) fs"
  shows "\<exists>b fs'. deleteItem fs f (Some n) = (Ok b NoListing, fs')
           \<and> \<not> pathExists (path_join [publicDir, f, n]) fs'"
proof -
  have "\<not> pathExists (path_join [publicDir, f, n]) (remove_at (publicDir # f # name_segs n) fs)"
    using not_pathExists_removed [of "path_join [publicDir, f, n]" fs]
    by (simp add: file_paths(2) [OF v ne])
  with ex ne show ?thesis
    by (simp add: deleteItem_def deleteFile_result [OF v ne])
qed

lemma deleteFolder_exposed:
  assumes f: "safePattern f" and ex: "node_at [publicDir, f] fs \<noteq> None"
  shows "\<exists>b fs'. deleteItem fs f None = (Ok b NoListing, fs')
           \<and> node_at [publicDir, f] fs' = None \<and> node_at [privateDir, f] fs' = None"
proof -
  have "node_at [publicDir, f] (remove_at [privateDir, f] (remove_at [publicDir, f] fs))
      = node_at [publicDir, f] (remove_at [publicDir, f] fs)"
    by (rule remove_at_frame) (simp_all add: publicDir_def privateDir_def)
  with ex show ?thesis
    using remove_at_below [of "[publicDir, f]" "[publicDir, f]" fs]
      remove_at_below [of "[privateDir, f]" "[privateDir, f]" "remove_at [publicDir, f] fs"]
    by (simp add: deleteItem_def deleteFolder_result [OF f])
qed

lemma renameFile_exposed:
  assumes v: "validatePath f (Some n) = Inr v" and ne: "n \<noteq> []"
    and v': "validatePath f (Some m) = Inr v'" and ne': "m \<noteq> []"
    and ex: "pathExists (path_join [publicDir, f, n]) fs"
  shows "node_at [privateDir] (snd (renameFile baseUrl fs f n m)) = node_at [privateDir] fs"
    and "renameFile baseUrl fs f n m = (Ok b l, fs') \<Longrightarrow>
           r_visibility b = Some Exposed
           \<and> node_at (segs (path_join [publicDir, f, m])) fs'
               = node_at (segs (path_join [publicDir, f, n])) fs"
proof -
  note po = file_paths(2) [OF v ne]
  note pn = file_paths(2) [OF v' ne']
  obtain r fs1 where mv:
    "move (path_join [publicDir, f, n]) (path_join [publicDir, f, m]) fs = (r, fs1)"
    by (cases "move (path_join [publicDir, f, n]) (path_join [publicDir, f, m]) fs")
  from move_in_root_frame [OF mv [unfolded po pn] roots_distinct] mv ex
  show "node_at [privateDir] (snd (renameFile baseUrl fs f n m)) = node_at [privateDir] fs"
    by (cases r) (simp_all add: renameFile_result [OF v ne v' ne'])
  assume "renameFile baseUrl fs f n m = (Ok b l, fs')"
  from renameFile_moves [OF v ne v' ne' this] ex
  show "r_visibility b = Some Exposed
           \<and> node_at (segs (path_join [publicDir, f, m])) fs'
               = node_at (segs (path_join [publicDir, f, n])) fs"
    by (simp add: po pn)
qed

lemma renameFolder_exposed:
  assumes f: "safePattern f" and g: "safePattern g"
    and ex: "node_at [publicDir, f] fs \<noteq> None"
  shows "node_at [privateDir] (snd (renameFolder baseUrl fs f g)) = node_at [privateDir] fs"
    and "renameFolder baseUrl fs f g = (Ok b l, fs') \<Longrightarrow>
           r_visibility b = Some Exposed
           \<and> node_at [publicDir, g] fs' = node_at [publicDir, f] fs"
proof -
  obtain r fs1 where mv:
    "move (FPath [publicDir, f] False) (FPath [publicDir, g] False) fs = (r, fs1)"
    by (cases "move (FPath [publicDir, f] False) (FPath [publicDir, g] False) fs")
  from move_in_root_frame [OF mv roots_distinct] mv ex
  show "node_at [privateDir] (snd (renameFolder baseUrl fs f g)) = node_at [privateDir] fs"
    by (cases r) (simp_all add: renameFolder_result [OF f g])
  assume "renameFolder baseUrl fs f g = (Ok b l, fs')"
  from renameFolder_moves [OF f g this] ex
  show "r_visibility b = Some Exposed
           \<and> node_at [publicDir, g] fs' = node_at [publicDir, f] fs"
    by simp
qed

lemma listFolder_exposed:
  assumes f: "safePattern f" and ex: "node_at [publicDir, f] fs = Some (Dir es)"
  shows "listFolder baseUrl fs f
     = (Ok \<lparr>r_action = ''folder_listed'', r_visibility = Some Exposed,
             r_url = Some (buildPublicUrl baseUrl f None),
             r_folder = Some f, r_file = None\<rparr> (Files (files_of (Dir es))), fs)"
  using ex by (simp add: listFolder_result [OF f])

subsection \<open>The old name after a rename\<close>

lemma renameFile_old_name:
  assumes v: "validatePath f (Some old) = Inr v" and ne: "old \<noteq> []"
    and v': "validatePath f (Some new) = Inr v'" and ne': "new \<noteq> []"
    and ok: "renameFile baseUrl fs f old new = (Ok b l, fs')"
  shows "\<not> pathExists (path_join [publicDir, f, old]) fs'"
    and "pathExists (path_join [privateDir, f, old]) fs'
       = (pathExists (path_join [publicDir, f, old]) fs
          \<and> pathExists (path_join [privateDir, f, old]) fs)"
    and "(deleteItem fs' f (Some old) = (Fail 404 (Msg ''File not found''), fs'))
       = (\<not> (pathExists (path_join [publicDir, f, old]) fs
             \<and> pathExists (path_join [privateDir, f, old]) fs))"
proof -
  note m = renameFile_moves [OF v ne v' ne' ok]
  from m show a: "\<not> pathExists (path_join [publicDir, f, old]) fs'" by simp
  from m show b: "pathExists (path_join [privateDir, f, old]) fs'
       = (pathExists (path_join [publicDir, f, old]) fs
          \<and> pathExists (path_join [privateDir, f, old]) fs)"
    by (auto split: if_splits)
  from a b ne show "(deleteItem fs' f (Some old) = (Fail 404 (Msg ''File not found''), fs'))
       = (\<not> (pathExists (path_join [publicDir, f, old]) fs
             \<and> pathExists (path_join [privateDir, f, old]) fs))"
    by (simp add: deleteItem_def deleteFile_result [OF v ne])
qed

lemma renameFolder_old_name:
  assumes f: "safePattern f" and g: "safePattern g"
    and ok: "renameFolder baseUrl fs f g = (Ok b l, fs')"
  shows "node_at [publicDir, f] fs' = None"
    and "node_at [privateDir, f] fs'
       = (if node_at [publicDir, f] fs \<noteq> None then node_at [privateDir, f] fs else None)"
    and "(listFolder baseUrl fs' f = (Fail 404 (Msg ''Folder not found''), fs'))
       = (\<not> (node_at [publicDir, f] fs \<noteq> None \<and> node_at [privateDir, f] fs \<noteq> None))"
proof -
  note m = renameFolder_moves [OF f g ok]
  from m show a: "node_at [publicDir, f] fs' = None" by simp
  have "node_at [privateDir, f] fs' = node_at [privateDir, f] fs"
    if "node_at [privateDir] fs' = node_at [privateDir] fs"
    using that node_at_append [of "[privateDir]" "[f]" fs']
      node_at_append [of "[privateDir]" "[f]" fs] by simp
  with m show b: "node_at [privateDir, f] fs'
       = (if node_at [publicDir, f] fs \<noteq> None then node_at [privateDir, f] fs else None)"
    by (auto split: if_splits)
  show "(listFolder baseUrl fs' f = (Fail 404 (Msg ''Folder not found''), fs'))
       = (\<not> (node_at [publicDir, f] fs \<noteq> None \<and> node_at [privateDir, f] fs \<noteq> None))"
    unfolding listFolder_result [OF f] a b
    by (auto split: option.splits node.splits)
qed

section \<open>Claims about deleting\<close>

text \<open>
  C1, at the input where the code departs from it. Uploading \<open>docs/a.txt\<close> exposed and
  then hidden leaves the file in both roots. Deleting \<open>docs/a.txt\<close> then removes the
  public copy only: the hidden copy can still be read, and a second delete is answered
  with success again instead of 404. Deleting the folder \<open>docs\<close> on the same disk
  removes it from both roots.
\<close>

theorem delete_file_keeps_hidden_copy:
  "snd (storeFile ''https://files.example''
          (snd (storeFile ''https://files.example'' (Dir []) ''docs'' ''a.txt'' [1] True))
          ''docs'' ''a.txt'' [2] False)
     = Dir [(''public'', Dir [(''docs'', Dir [(''a.txt'', File [1])])]),
            (''private'', Dir [(''docs'', Dir [(''a.txt'', File [2])])])]
   \<and> deleteItem
         (Dir [(''public'', Dir [(''docs'', Dir [(''a.txt'', File [1])])]),
               (''private'', Dir [(''docs'', Dir [(''a.txt'', File [2])])])])
         ''docs'' (Some ''a.txt'')
     = (Ok \<lparr>r_action = ''file_deleted'', r_visibility = Some Hidden, r_url = None,
            r_folder = Some ''docs'', r_file = Some ''a.txt''\<rparr> NoListing,
        Dir [(''public'', Dir [(''docs'', Dir [])]),
             (''private'', Dir [(''docs'', Dir [(''a.txt'', File [2])])])])
   \<and> readFile (path_join [privateDir, ''docs'', ''a.txt''])
         (Dir [(''public'', Dir [(''docs'', Dir [])]),
               (''private'', Dir [(''docs'', Dir [(''a.txt'', File [2])])])])
     = Some [2]
   \<and> deleteItem
         (Dir [(''public'', Dir [(''docs'', Dir [])]),
               (''private'', Dir [(''docs'', Dir [(''a.txt'', File [2])])])])
         ''docs'' (Some ''a.txt'')
     = (Ok \<lparr>r_action = ''file_deleted'', r_visibility = Some Hidden, r_url = None,
            r_folder = Some ''docs'', r_file = Some ''a.txt''\<rparr> NoListing,
        Dir [(''public'', Dir [(''docs'', Dir [])]),
             (''private'', Dir [(''docs'', Dir [])])])
   \<and> deleteItem
         (Dir [(''public'', Dir [(''docs'', Dir [(''a.txt'', File [1])])]),
               (''private'', Dir [(''docs'', Dir [(''a.txt'', File [2])])])])
         ''docs'' None
     = (Ok \<lparr>r_action = ''folder_deleted'', r_visibility = Some Hidden, r_url = None,
            r_folder = Some ''docs'', r_file = None\<rparr> NoListing,
        Dir [(''public'', Dir []), (''private'', Dir [])])"
  by (simp add: storeFile_def deleteItem_def deleteFile_def deleteFolder_def
      validate_eval fs_eval)

section \<open>Claims about the precedence of the exposed root\<close>

text \<open>
  C3 (as amended). For an item that is in the exposed root, whatever the hidden root
  holds: a delete removes the exposed copy (a folder delete removes the hidden folder
  as well); a rename of a file or folder leaves the hidden root untouched and, when it
  succeeds, reports \<open>exposed\<close> and has moved the exposed copy; \<open>listFolder\<close> reports
  \<open>exposed\<close>, the public URL and the files of the exposed copy; a successful
  \<open>unexpose\<close> moves the exposed copy over the hidden one. \<open>expose\<close> is the exception:
  it probes the hidden root first, and when the folder is there a successful \<open>expose\<close>
  moves the hidden copy over the exposed one.
\<close>

theorem exposed_copy_takes_precedence:
  "(validatePath f (Some n) = Inr v \<and> n \<noteq> []
      \<and> pathExists (path_join [publicDir, f, n]) fs \<longrightarrow>
      (\<exists>b fs'. deleteItem fs f (Some n) = (Ok b NoListing, fs')
           \<and> \<not> pathExists (path_join [publicDir, f, n]) fs'))
   \<and> (safePattern f \<and> node_at [publicDir, f] fs \<noteq> None \<longrightarrow>
      (\<exists>b fs'. deleteItem fs f None = (Ok b NoListing, fs')
           \<and> node_at [publicDir, f] fs' = None \<and> node_at [privateDir, f] fs' = None))
   \<and> (validatePath f (Some n) = Inr v \<and> n \<noteq> []
      \<and> validatePath f (Some m) = Inr v' \<and> m \<noteq> []
      \<and> pathExists (path_join [publicDir, f, n]) fs \<longrightarrow>
      node_at [privateDir] (snd (renameFile baseUrl fs f n m)) = node_at [privateDir] fs
      \<and> (\<forall>b l fs'. renameFile baseUrl fs f n m = (Ok b l, fs') \<longrightarrow>
             r_visibility b = Some Exposed
             \<and> node_at (segs (path_join [publicDir, f, m])) fs'
                 = node_at (segs (path_join [publicDir, f, n])) fs))
   \<and> (safePattern f \<and> safePattern g \<and> node_at [publicDir, f] fs \<noteq> None \<longrightarrow>
      node_at [privateDir] (snd (renameFolder baseUrl fs f g)) = node_at [privateDir] fs
      \<and> (\<forall>b l fs'. renameFolder baseUrl fs f g = (Ok b l, fs') \<longrightarrow>
             r_visibility b = Some Exposed
             \<and> node_at [publicDir, g] fs' = node_at [publicDir, f] fs))
   \<and> (safePattern f \<and> node_at [publicDir, f] fs = Some (Dir es) \<longrightarrow>
      listFolder baseUrl fs f
        = (Ok \<lparr>r_action = ''folder_listed'', r_visibility = Some Exposed,
               r_url = Some (buildPublicUrl baseUrl f None),
               r_folder = Some f, r_file = None\<rparr> (Files (files_of (Dir es))), fs))
   \<and> (safePattern f \<and> node_at [publicDir, f] fs \<noteq> None \<longrightarrow>
      (\<forall>b l fs'. unexpose_folder fs f = (Ok b l, fs') \<longrightarrow>
             node_at [privateDir, f] fs' = node_at [publicDir, f] fs
             \<and> node_at [publicDir, f] fs' = None))
   \<and> (safePattern f \<and> node_at [privateDir, f] fs \<noteq> None \<longrightarrow>
      (\<forall>b l fs'. expose_folder baseUrl fs f = (Ok b l, fs') \<longrightarrow>
             node_at [publicDir, f] fs' = node_at [privateDir, f] fs
             \<and> node_at [privateDir, f] fs' = None))"
proof (intro conjI impI allI; (elim conjE)?)
  assume "validatePath f (Some n) = Inr v" "n \<noteq> []"
    "pathExists (path_join [publicDir, f, n]) fs"
  then show "\<exists>b fs'. deleteItem fs f (Some n) = (Ok b NoListing, fs')
           \<and> \<not> pathExists (path_join [publicDir, f, n]) fs'"
    by (rule deleteFile_exposed)
next
  assume "safePattern f" "node_at [publicDir, f] fs \<noteq> None"
  then show "\<exists>b fs'. deleteItem fs f None = (Ok b NoListing, fs')
           \<and> node_at [publicDir, f] fs' = None \<and> node_at [privateDir, f] fs' = None"
    by (rule deleteFolder_exposed)
next
  assume "validatePath f (Some n) = Inr v" "n \<noteq> []"
    "validatePath f (Some m) = Inr v'" "m \<noteq> []"
    "pathExists (path_join [publicDir, f, n]) fs"
  then show "node_at [privateDir] (snd (renameFile baseUrl fs f n m)) = node_at [privateDir] fs"
    by (rule renameFile_exposed(1))
next
  fix b l fs'
  assume "validatePath f (Some n) = Inr v" "n \<noteq> []"
    "validatePath f (Some m) = Inr v'" "m \<noteq> []"
    "pathExists (path_join [publicDir, f, n]) fs"
    "renameFile baseUrl fs f n m = (Ok b l, fs')"
  from renameFile_exposed(2) [OF this]
  show "r_visibility b = Some Exposed" 
    and "node_at (segs (path_join [publicDir, f, m])) fs'
                 = node_at (segs (path_join [publicDir, f, n])) fs"
    by simp_all
next
  assume "safePattern f" "safePattern g" "node_at [publicDir, f] fs \<noteq> None"
  then show "node_at [privateDir] (snd (renameFolder baseUrl fs f g)) = node_at [privateDir] fs"
    by (rule renameFolder_exposed(1))
next
  fix b l fs'
  assume "safePattern f" "safePattern g" "node_at [publicDir, f] fs \<noteq> None"
    "renameFolder baseUrl fs f g = (Ok b l, fs')"
  from renameFolder_exposed(2) [OF this]
  show "r_visibility b = Some Exposed"
    and "node_at [publicDir, g] fs' = node_at [publicDir, f] fs"
    by simp_all
next
  assume "safePattern f" "node_at [publicDir, f] fs = Some (Dir es)"
  then show "listFolder baseUrl fs f
        = (Ok \<lparr>r_action = ''folder_listed'', r_visibility = Some Exposed,
               r_url = Some (buildPublicUrl baseUrl f None),
               r_folder = Some f, r_file = None\<rparr> (Files (files_of (Dir es))), fs)"
    by (rule listFolder_exposed)
next
  fix b l fs'
  assume "safePattern f" "node_at [publicDir, f] fs \<noteq> None"
    "unexpose_folder fs f = (Ok b l, fs')"
  from unexpose_moves_exposed_copy [OF this]
  show "node_at [privateDir, f] fs' = node_at [publicDir, f] fs"
    and "node_at [publicDir, f] fs' = None" .
next
  fix b l fs'
  assume "safePattern f" "node_at [privateDir, f] fs \<noteq> None"
    "expose_folder baseUrl fs f = (Ok b l, fs')"
  from expose_moves_hidden_copy [OF this]
  show "node_at [publicDir, f] fs' = node_at [privateDir, f] fs"
    and "node_at [privateDir, f] fs' = None" .
qed

theorem exposed_copy_takes_precedence_witness:
  "(\<exists>b fs'. deleteItem
        (Dir [(''public'', Dir [(''docs'', Dir [(''a.txt'', File [1])])]),
              (''private'', Dir [(''docs'', Dir [(''a.txt'', File [2]), (''b.txt'', File [3])])])])
        ''docs'' (Some ''a.txt'') = (Ok b NoListing, fs')
      \<and> \<not> pathExists (path_join [publicDir, ''docs'', ''a.txt'']) fs')
   \<and> (\<exists>b fs'. deleteItem
        (Dir [(''public'', Dir [(''docs'', Dir [(''a.txt'', File [1])])]),
              (''private'', Dir [(''docs'', Dir [(''a.txt'', File [2]), (''b.txt'', File [3])])])])
        ''docs'' None = (Ok b NoListing, fs')
      \<and> node_at [publicDir, ''docs''] fs' = None \<and> node_at [privateDir, ''docs''] fs' = None)
   \<and> (\<exists>b fs'. renameFile ''https://files.example''
        (Dir [(''public'', Dir [(''docs'', Dir [(''a.txt'', File [1])])]),
              (''private'', Dir [(''docs'', Dir [(''a.txt'', File [2]), (''b.txt'', File [3])])])])
        ''docs'' ''a.txt'' ''c.txt'' = (Ok b NoListing, fs')
      \<and> r_visibility b = Some Exposed
      \<and> node_at [privateDir] fs'
          = Some (Dir [(''docs'', Dir [(''a.txt'', File [2]), (''b.txt'', File [3])])]))
   \<and> (\<exists>b fs'. renameFolder ''https://files.example''
        (Dir [(''public'', Dir [(''docs'', Dir [(''a.txt'', File [1])])]),
              (''private'', Dir [(''docs'', Dir [(''a.txt'', File [2]), (''b.txt'', File [3])])])])
        ''docs'' ''archive'' = (Ok b NoListing, fs')
      \<and> r_visibility b = Some Exposed
      \<and> node_at [publicDir, ''archive''] fs' = Some (Dir [(''a.txt'', File [1])])
      \<and> node_at [privateDir] fs'
          = Some (Dir [(''docs'', Dir [(''a.txt'', File [2]), (''b.txt'', File [3])])]))
   \<and> listFolder ''https://files.example''
        (Dir [(''public'', Dir [(''docs'', Dir [(''a.txt'', File [1])])]),
              (''private'', Dir [(''docs'', Dir [(''a.txt'', File [2]), (''b.txt'', File [3])])])])
        ''docs''
      = (Ok \<lparr>r_action = ''folder_listed'', r_visibility = Some Exposed,
             r_url = Some ''https://files.example/public/docs/'',
             r_folder = Some ''docs'', r_file = None\<rparr>
           (Files [\<lparr>e_name = ''a.txt'', e_size = 1\<rparr>]),
         Dir [(''public'', Dir [(''docs'', Dir [(''a.txt'', File [1])])]),
              (''private'', Dir [(''docs'', Dir [(''a.txt'', File [2]), (''b.txt'', File [3])])])])
   \<and> (\<exists>b fs'. unexpose_folder
        (Dir [(''public'', Dir [(''docs'', Dir [(''a.txt'', File [1])])]),
              (''private'', Dir [(''docs'', Dir [(''a.txt'', File [2]), (''b.txt'', File [3])])])])
        ''docs'' = (Ok b NoListing, fs')
      \<and> node_at [privateDir, ''docs''] fs' = Some (Dir [(''a.txt'', File [1])])
      \<and> node_at [publicDir, ''docs''] fs' = None)
   \<and> (\<exists>b fs'. expose_folder ''https://files.example''
        (Dir [(''public'', Dir [(''docs'', Dir [(''a.txt'', File [1])])]),
              (''private'', Dir [(''docs'', Dir [(''a.txt'', File [2]), (''b.txt'', File [3])])])])
        ''docs'' = (Ok b NoListing, fs')
      \<and> node_at [publicDir, ''docs''] fs'
          = Some (Dir [(''a.txt'', File [2]), (''b.txt'', File [3])])
      \<and> node_at [privateDir, ''docs''] fs' = None)"
proof -
  let ?fs = "Dir [(''public'', Dir [(''docs'', Dir [(''a.txt'', File [1])])]),
      (''private'', Dir [(''docs'', Dir [(''a.txt'', File [2]), (''b.txt'', File [3])])])]"
  let ?u = "''https://files.example''"
  note t = exposed_copy_takes_precedence [where fs = ?fs and f = "''docs''"
      and n = "''a.txt''" and m = "''c.txt''" and g = "''archive''" and baseUrl = ?u
      and v = "\<lparr>safeFolder = ''docs'', safeFilename = Some ''a.txt''\<rparr>"
      and v' = "\<lparr>safeFolder = ''docs'', safeFilename = Some ''c.txt''\<rparr>"
      and es = "[(''a.txt'', File [1])]"]
  have v: "validatePath ''docs'' (Some ''a.txt'')
      = Inr \<lparr>safeFolder = ''docs'', safeFilename = Some ''a.txt''\<rparr>"
    "validatePath ''docs'' (Some ''c.txt'')
      = Inr \<lparr>safeFolder = ''docs'', safeFilename = Some ''c.txt''\<rparr>"
    "safePattern ''docs''" "safePattern ''archive''"
    by (simp_all add: validate_eval)
  have e: "pathExists (path_join [publicDir, ''docs'', ''a.txt'']) ?fs"
    by (simp add: fs_eval)
  have n: "node_at [publicDir, ''docs''] ?fs = Some (Dir [(''a.txt'', File [1])])"
    "node_at [privateDir, ''docs''] ?fs
       = Some (Dir [(''a.txt'', File [2]), (''b.txt'', File [3])])"
    "node_at [privateDir] ?fs
       = Some (Dir [(''docs'', Dir [(''a.txt'', File [2]), (''b.txt'', File [3])])])"
    by (simp_all add: node_eval publicDir_def privateDir_def)
  have r1: "\<exists>b fs'. renameFile ?u ?fs ''docs'' ''a.txt'' ''c.txt'' = (Ok b NoListing, fs')"
    by (simp add: renameFile_def validate_eval fs_eval)
  have r2: "\<exists>b fs'. renameFolder ?u ?fs ''docs'' ''archive'' = (Ok b NoListing, fs')"
    by (simp add: renameFolder_def validate_eval fs_eval)
  have r3: "\<exists>b fs'. unexpose_folder ?fs ''docs'' = (Ok b NoListing, fs')"
    by (simp add: unexpose_folder_def validate_eval fs_eval)
  have r4: "\<exists>b fs'. expose_folder ?u ?fs ''docs'' = (Ok b NoListing, fs')"
    by (simp add: expose_folder_def validate_eval fs_eval)
  have c1: "\<exists>b fs'. deleteItem ?fs ''docs'' (Some ''a.txt'') = (Ok b NoListing, fs')
      \<and> \<not> pathExists (path_join [publicDir, ''docs'', ''a.txt'']) fs'"
    using t v e by simp
  have c2: "\<exists>b fs'. deleteItem ?fs ''docs'' None = (Ok b NoListing, fs')
      \<and> node_at [publicDir, ''docs''] fs' = None \<and> node_at [privateDir, ''docs''] fs' = None"
    using t v n by simp
  have c3: "\<exists>b fs'. renameFile ?u ?fs ''docs'' ''a.txt'' ''c.txt'' = (Ok b NoListing, fs')
      \<and> r_visibility b = Some Exposed
      \<and> node_at [privateDir] fs'
          = Some (Dir [(''docs'', Dir [(''a.txt'', File [2]), (''b.txt'', File [3])])])"
  proof -
    from r1 obtain b fs' where
      r: "renameFile ?u ?fs ''docs'' ''a.txt'' ''c.txt'' = (Ok b NoListing, fs')" by blast
    from t v e have "node_at [privateDir] (snd (renameFile ?u ?fs ''docs'' ''a.txt'' ''c.txt''))
        = node_at [privateDir] ?fs"
      and "\<forall>b l fs'. renameFile ?u ?fs ''docs'' ''a.txt'' ''c.txt'' = (Ok b l, fs') \<longrightarrow>
             r_visibility b = Some Exposed" by simp_all
    with r n(3) show ?thesis by auto
  qed
  have c4: "\<exists>b fs'. renameFolder ?u ?fs ''docs'' ''archive'' = (Ok b NoListing, fs')
      \<and> r_visibility b = Some Exposed
      \<and> node_at [publicDir, ''archive''] fs' = Some (Dir [(''a.txt'', File [1])])
      \<and> node_at [privateDir] fs'
          = Some (Dir [(''docs'', Dir [(''a.txt'', File [2]), (''b.txt'', File [3])])])"
  proof -
    from r2 obtain b fs' where
      r: "renameFolder ?u ?fs ''docs'' ''archive'' = (Ok b NoListing, fs')" by blast
    from t v n have "node_at [privateDir] (snd (renameFolder ?u ?fs ''docs'' ''archive''))
        = node_at [privateDir] ?fs"
      and "\<forall>b l fs'. renameFolder ?u ?fs ''docs'' ''archive'' = (Ok b l, fs') \<longrightarrow>
             r_visibility b = Some Exposed
             \<and> node_at [publicDir, ''archive''] fs' = node_at [publicDir, ''docs''] ?fs"
      by simp_all
    with r n show ?thesis by auto
  qed
  have c5: "listFolder ?u ?fs ''docs''
      = (Ok \<lparr>r_action = ''folder_listed'', r_visibility = Some Exposed,
             r_url = Some ''https://files.example/public/docs/'',
             r_folder = Some ''docs'', r_file = None\<rparr>
           (Files [\<lparr>e_name = ''a.txt'', e_size = 1\<rparr>]), ?fs)"
    using t v n by (simp add: buildPublicUrl_def node_eval)
  have c6: "\<exists>b fs'. unexpose_folder ?fs ''docs'' = (Ok b NoListing, fs')
      \<and> node_at [privateDir, ''docs''] fs' = Some (Dir [(''a.txt'', File [1])])
      \<and> node_at [publicDir, ''docs''] fs' = None"
  proof -
    from r3 obtain b fs' where r: "unexpose_folder ?fs ''docs'' = (Ok b NoListing, fs')"
      by blast
    from t v n have "\<forall>b l fs'. unexpose_folder ?fs ''docs'' = (Ok b l, fs') \<longrightarrow>
             node_at [privateDir, ''docs''] fs' = node_at [publicDir, ''docs''] ?fs
             \<and> node_at [publicDir, ''docs''] fs' = None" by simp
    with r n show ?thesis by auto
  qed
  have c7: "\<exists>b fs'. expose_folder ?u ?fs ''docs'' = (Ok b NoListing, fs')
      \<and> node_at [publicDir, ''docs''] fs'
          = Some (Dir [(''a.txt'', File [2]), (''b.txt'', File [3])])
      \<and> node_at [privateDir, ''docs''] fs' = None"
  proof -
    from r4 obtain b fs' where r: "expose_folder ?u ?fs ''docs'' = (Ok b NoListing, fs')"
      by blast
    from t v n have "\<forall>b l fs'. expose_folder ?u ?fs ''docs'' = (Ok b l, fs') \<longrightarrow>
             node_at [publicDir, ''docs''] fs' = node_at [privateDir, ''docs''] ?fs
             \<and> node_at [privateDir, ''docs''] fs' = None" by simp
    with r n show ?thesis by auto
  qed
  from c1 c2 c3 c4 c5 c6 c7 show ?thesis by (intro conjI)
qed

text \<open>
  C3 as stated fails for \<open>expose\<close>: with the folder \<open>docs\<close> in both roots, \<open>expose\<close>
  probes the private root first and moves the hidden copy over the exposed one.
\<close>

theorem expose_prefers_hidden_copy_counterexample:
  "expose_folder ''https://files.example''
      (Dir [(''public'', Dir [(''docs'', Dir [(''shown.txt'', File [1])])]),
            (''private'', Dir [(''docs'', Dir [(''kept.txt'', File [2])])])])
      ''docs''
   = (Ok \<lparr>r_action = ''folder_exposed'', r_visibility = Some Exposed,
          r_url = Some ''https://files.example/public/docs/'',
          r_folder = Some ''docs'', r_file = None\<rparr> NoListing,
      Dir [(''public'', Dir [(''docs'', Dir [(''kept.txt'', File [2])])]),
           (''private'', Dir [])])"
  by (simp add: expose_folder_def buildPublicUrl_def validate_eval fs_eval)

section \<open>Claims about renaming\<close>

text \<open>
  C4 (as amended). When a rename of a file or folder succeeds, the item has moved
  within the root it was found in (the exposed root when both roots hold the name),
  the other root is unchanged, the reported visibility is the one the item was found
  with, and the old name is gone from that root. A later request for the old name is
  answered 404 exactly when the name was not in both roots before: after renaming the
  exposed copy of a name that the hidden root holds too, the old name resolves to the
  hidden copy. The rename succeeds whenever the old and the new name are different
  names without a path separator, the new name is one a directory can hold (at most
  255 bytes, no NUL byte) and, in that root, is free or held by an item of the same
  kind.
\<close>

theorem rename_within_root:
  "(validatePath f (Some old) = Inr v \<and> old \<noteq> []
      \<and> validatePath f (Some new) = Inr v' \<and> new \<noteq> []
      \<and> renameFile baseUrl fs f old new = (Ok b l, fs') \<longrightarrow>
      (if pathExists (path_join [publicDir, f, old]) fs
       then r_visibility b = Some Exposed
          \<and> node_at (segs (path_join [publicDir, f, new])) fs'
              = node_at (segs (path_join [publicDir, f, old])) fs
          \<and> node_at [privateDir] fs' = node_at [privateDir] fs
       else r_visibility b = Some Hidden
          \<and> node_at (segs (path_join [privateDir, f, new])) fs'
              = node_at (segs (path_join [privateDir, f, old])) fs
          \<and> node_at [publicDir] fs' = node_at [publicDir] fs)
      \<and> \<not> pathExists (path_join [publicDir, f, old]) fs'
      \<and> pathExists (path_join [privateDir, f, old]) fs'
          = (pathExists (path_join [publicDir, f, old]) fs
             \<and> pathExists (path_join [privateDir, f, old]) fs)
      \<and> (deleteItem fs' f (Some old) = (Fail 404 (Msg ''File not found''), fs'))
          = (\<not> (pathExists (path_join [publicDir, f, old]) fs
                \<and> pathExists (path_join [privateDir, f, old]) fs)))
   \<and> (safePattern f \<and> safePattern g
      \<and> renameFolder baseUrl fs f g = (Ok b l, fs') \<longrightarrow>
      (if node_at [publicDir, f] fs \<noteq> None
       then r_visibility b = Some Exposed
          \<and> node_at [publicDir, g] fs' = node_at [publicDir, f] fs
          \<and> node_at [privateDir] fs' = node_at [privateDir] fs
       else r_visibility b = Some Hidden
          \<and> node_at [privateDir, g] fs' = node_at [privateDir, f] fs
          \<and> node_at [publicDir] fs' = node_at [publicDir] fs)
      \<and> node_at [publicDir, f] fs' = None
      \<and> node_at [privateDir, f] fs'
          = (if node_at [publicDir, f] fs \<noteq> None then node_at [privateDir, f] fs else None)
      \<and> (listFolder baseUrl fs' f = (Fail 404 (Msg ''Folder not found''), fs'))
          = (\<not> (node_at [publicDir, f] fs \<noteq> None \<and> node_at [privateDir, f] fs \<noteq> None)))
   \<and> (validatePath f (Some old) = Inr v \<and> old \<noteq> []
      \<and> validatePath f (Some new) = Inr v' \<and> new \<noteq> []
      \<and> CHR ''/'' \<notin> set old \<and> CHR ''/'' \<notin> set new \<and> old \<noteq> new
      \<and> name_ok new
      \<and> r = (if node_at [publicDir, f, old] fs \<noteq> None then publicDir else privateDir)
      \<and> node_at [r, f, old] fs = Some x
      \<and> (case node_at [r, f, new] fs of None \<Rightarrow> True | Some y \<Rightarrow> is_dir y = is_dir x) \<longrightarrow>
      (\<exists>b fs'. renameFile baseUrl fs f old new = (Ok b NoListing, fs')))
   \<and> (safePattern f \<and> safePattern g \<and> f \<noteq> g \<and> name_ok g
      \<and> r = (if node_at [publicDir, f] fs \<noteq> None then publicDir else privateDir)
      \<and> node_at [r, f] fs = Some x
      \<and> (case node_at [r, g] fs of None \<Rightarrow> True | Some y \<Rightarrow> is_dir y = is_dir x) \<longrightarrow>
      (\<exists>b fs'. renameFolder baseUrl fs f g = (Ok b NoListing, fs')))"
proof (intro conjI impI; (elim conjE)?)
  assume a: "validatePath f (Some old) = Inr v" "old \<noteq> []"
    "validatePath f (Some new) = Inr v'" "new \<noteq> []"
    "renameFile baseUrl fs f old new = (Ok b l, fs')"
  note p = file_paths(2,3) [OF a(1,2)] file_paths(2,3) [OF a(3,4)]
  from renameFile_moves [OF a]
  show "if pathExists (path_join [publicDir, f, old]) fs
       then r_visibility b = Some Exposed
          \<and> node_at (segs (path_join [publicDir, f, new])) fs'
              = node_at (segs (path_join [publicDir, f, old])) fs
          \<and> node_at [privateDir] fs' = node_at [privateDir] fs
       else r_visibility b = Some Hidden
          \<and> node_at (segs (path_join [privateDir, f, new])) fs'
              = node_at (segs (path_join [privateDir, f, old])) fs
          \<and> node_at [publicDir] fs' = node_at [publicDir] fs"
    by (simp add: p split: if_splits)
  from renameFile_old_name [OF a]
  show "\<not> pathExists (path_join [publicDir, f, old]) fs'"
    and "pathExists (path_join [privateDir, f, old]) fs'
          = (pathExists (path_join [publicDir, f, old]) fs
             \<and> pathExists (path_join [privateDir, f, old]) fs)"
    and "(deleteItem fs' f (Some old) = (Fail 404 (Msg ''File not found''), fs'))
          = (\<not> (pathExists (path_join [publicDir, f, old]) fs
                \<and> pathExists (path_join [privateDir, f, old]) fs))" .
next
  assume a: "safePattern f" "safePattern g" "renameFolder baseUrl fs f g = (Ok b l, fs')"
  from renameFolder_moves [OF a]
  show "if node_at [publicDir, f] fs \<noteq> None
       then r_visibility b = Some Exposed
          \<and> node_at [publicDir, g] fs' = node_at [publicDir, f] fs
          \<and> node_at [privateDir] fs' = node_at [privateDir] fs
       else r_visibility b = Some Hidden
          \<and> node_at [privateDir, g] fs' = node_at [privateDir, f] fs
          \<and> node_at [publicDir] fs' = node_at [publicDir] fs"
    by (simp split: if_splits)
  from renameFolder_old_name [OF a]
  show "node_at [publicDir, f] fs' = None"
    and "node_at [privateDir, f] fs'
          = (if node_at [publicDir, f] fs \<noteq> None then node_at [privateDir, f] fs else None)"
    and "(listFolder baseUrl fs' f = (Fail 404 (Msg ''Folder not found''), fs'))
          = (\<not> (node_at [publicDir, f] fs \<noteq> None \<and> node_at [privateDir, f] fs \<noteq> None))" .
next
  assume a: "validatePath f (Some old) = Inr v" "old \<noteq> []"
    "validatePath f (Some new) = Inr v'" "new \<noteq> []"
    "CHR ''/'' \<notin> set old" "CHR ''/'' \<notin> set new" "old \<noteq> new" "name_ok new"
    "r = (if node_at [publicDir, f, old] fs \<noteq> None then publicDir else privateDir)"
    "node_at [r, f, old] fs = Some x"
    and k: "case node_at [r, f, new] fs of None \<Rightarrow> True | Some y \<Rightarrow> is_dir y = is_dir x"
  show "\<exists>b fs'. renameFile baseUrl fs f old new = (Ok b NoListing, fs')"
  proof (rule renameFile_succeeds [OF a(1-8) a(10) a(9)])
    fix y
    assume "node_at [r, f, new] fs = Some y"
    with k show "is_dir y = is_dir x" by simp
  qed
next
  assume a: "safePattern f" "safePattern g" "f \<noteq> g" "name_ok g"
    "r = (if node_at [publicDir, f] fs \<noteq> None then publicDir else privateDir)"
    "node_at [r, f] fs = Some x"
    and k: "case node_at [r, g] fs of None \<Rightarrow> True | Some y \<Rightarrow> is_dir y = is_dir x"
  show "\<exists>b fs'. renameFolder baseUrl fs f g = (Ok b NoListing, fs')"
  proof (rule renameFolder_succeeds [OF a(1-4) a(6) a(5)])
    fix y
    assume "node_at [r, g] fs = Some y"
    with k show "is_dir y = is_dir x" by simp
  qed
qed

theorem rename_within_root_witness:
  "(\<exists>b fs'. renameFile ''https://files.example''
        (Dir [(''private'', Dir [(''docs'', Dir [(''a.txt'', File [104, 105])])])])
        ''docs'' ''a.txt'' ''b.txt'' = (Ok b NoListing, fs')
      \<and> r_visibility b = Some Hidden
      \<and> node_at [privateDir, ''docs'', ''b.txt''] fs' = Some (File [104, 105])
      \<and> node_at [publicDir] fs' = None
      \<and> deleteItem fs' ''docs'' (Some ''a.txt'') = (Fail 404 (Msg ''File not found''), fs'))
   \<and> (\<exists>b fs'. renameFolder ''https://files.example''
        (Dir [(''public'', Dir [(''docs'', Dir [(''a.txt'', File [104, 105])])])])
        ''docs'' ''reports'' = (Ok b NoListing, fs')
      \<and> r_visibility b = Some Exposed
      \<and> node_at [publicDir, ''reports''] fs' = Some (Dir [(''a.txt'', File [104, 105])])
      \<and> listFolder ''https://files.example'' fs' ''docs''
          = (Fail 404 (Msg ''Folder not found''), fs'))"
proof -
  let ?u = "''https://files.example''"
  let ?h = "Dir [(''private'', Dir [(''docs'', Dir [(''a.txt'', File [104, 105])])])]"
  let ?e = "Dir [(''public'', Dir [(''docs'', Dir [(''a.txt'', File [104, 105])])])]"
  have v: "validatePath ''docs'' (Some ''a.txt'')
      = Inr \<lparr>safeFolder = ''docs'', safeFilename = Some ''a.txt''\<rparr>"
    "validatePath ''docs'' (Some ''b.txt'')
      = Inr \<lparr>safeFolder = ''docs'', safeFilename = Some ''b.txt''\<rparr>"
    "safePattern ''docs''" "safePattern ''reports''"
    by (simp_all add: validate_eval)
  have k: "name_ok ''b.txt''" "name_ok ''reports''"
    by (simp_all add: node_eval)
  have p: "path_join [publicDir, ''docs'', ''a.txt''] = FPath [publicDir, ''docs'', ''a.txt''] False"
    "path_join [privateDir, ''docs'', ''a.txt''] = FPath [privateDir, ''docs'', ''a.txt''] False"
    "path_join [privateDir, ''docs'', ''b.txt''] = FPath [privateDir, ''docs'', ''b.txt''] False"
    by (simp_all add: fs_eval)
  have h: "node_at [publicDir, ''docs'', ''a.txt''] ?h = None"
    "node_at [privateDir, ''docs'', ''a.txt''] ?h = Some (File [104, 105])"
    "node_at [privateDir, ''docs'', ''b.txt''] ?h = None"
    "node_at [publicDir] ?h = None"
    by (simp_all add: node_eval publicDir_def privateDir_def)
  have e: "node_at [publicDir, ''docs''] ?e = Some (Dir [(''a.txt'', File [104, 105])])"
    "node_at [publicDir, ''reports''] ?e = None"
    "node_at [privateDir, ''docs''] ?e = None"
    by (simp_all add: node_eval publicDir_def privateDir_def)
  have c1: "\<exists>b fs'. renameFile ?u ?h ''docs'' ''a.txt'' ''b.txt'' = (Ok b NoListing, fs')
      \<and> r_visibility b = Some Hidden
      \<and> node_at [privateDir, ''docs'', ''b.txt''] fs' = Some (File [104, 105])
      \<and> node_at [publicDir] fs' = None
      \<and> deleteItem fs' ''docs'' (Some ''a.txt'') = (Fail 404 (Msg ''File not found''), fs')"
  proof -
    note t = rename_within_root [where fs = ?h and f = "''docs''" and old = "''a.txt''"
        and new = "''b.txt''" and baseUrl = ?u and r = privateDir and x = "File [104, 105]"
        and v = "\<lparr>safeFolder = ''docs'', safeFilename = Some ''a.txt''\<rparr>"
        and v' = "\<lparr>safeFolder = ''docs'', safeFilename = Some ''b.txt''\<rparr>"]
    from t [THEN conjunct2, THEN conjunct2, THEN conjunct1] v h k
    obtain b fs' where r: "renameFile ?u ?h ''docs'' ''a.txt'' ''b.txt'' = (Ok b NoListing, fs')"
      by auto
    note t' = rename_within_root [where fs = ?h and f = "''docs''" and old = "''a.txt''"
        and new = "''b.txt''" and baseUrl = ?u and b = b and l = NoListing and fs' = fs'
        and v = "\<lparr>safeFolder = ''docs'', safeFilename = Some ''a.txt''\<rparr>"
        and v' = "\<lparr>safeFolder = ''docs'', safeFilename = Some ''b.txt''\<rparr>"]
    from t' [THEN conjunct1] v r h
    have "r_visibility b = Some Hidden
      \<and> node_at [privateDir, ''docs'', ''b.txt''] fs' = Some (File [104, 105])
      \<and> node_at [publicDir] fs' = None
      \<and> deleteItem fs' ''docs'' (Some ''a.txt'') = (Fail 404 (Msg ''File not found''), fs')"
      by (simp add: p)
    with r show ?thesis by blast
  qed
  have c2: "\<exists>b fs'. renameFolder ?u ?e ''docs'' ''reports'' = (Ok b NoListing, fs')
      \<and> r_visibility b = Some Exposed
      \<and> node_at [publicDir, ''reports''] fs' = Some (Dir [(''a.txt'', File [104, 105])])
      \<and> listFolder ?u fs' ''docs'' = (Fail 404 (Msg ''Folder not found''), fs')"
  proof -
    note t = rename_within_root [where fs = ?e and f = "''docs''" and g = "''reports''"
        and baseUrl = ?u and r = publicDir and x = "Dir [(''a.txt'', File [104, 105])]"]
    from t [THEN conjunct2, THEN conjunct2, THEN conjunct2] v e k
    obtain b fs' where r: "renameFolder ?u ?e ''docs'' ''reports'' = (Ok b NoListing, fs')"
      by auto
    note t' = rename_within_root [where fs = ?e and f = "''docs''" and g = "''reports''"
        and baseUrl = ?u and b = b and l = NoListing and fs' = fs']
    from t' [THEN conjunct2, THEN conjunct1] v r e
    have "r_visibility b = Some Exposed
      \<and> node_at [publicDir, ''reports''] fs' = Some (Dir [(''a.txt'', File [104, 105])])
      \<and> listFolder ?u fs' ''docs'' = (Fail 404 (Msg ''Folder not found''), fs')"
      by simp
    with r show ?thesis by blast
  qed
  from c1 c2 show ?thesis by (intro conjI)
qed

text \<open>
  C4 as stated fails when the file is in both roots: the rename moves the exposed copy,
  and a later request for the old name finds the hidden copy instead of nothing.
\<close>

theorem rename_stale_name_counterexample:
  "renameFile ''https://files.example''
      (Dir [(''public'', Dir [(''docs'', Dir [(''a.txt'', File [1])])]),
            (''private'', Dir [(''docs'', Dir [(''a.txt'', File [2])])])])
      ''docs'' ''a.txt'' ''b.txt''
   = (Ok \<lparr>r_action = ''renamed'', r_visibility = Some Exposed,
          r_url = Some ''https://files.example/public/docs/b.txt'',
          r_folder = Some ''docs'', r_file = Some ''b.txt''\<rparr> NoListing,
      Dir [(''public'', Dir [(''docs'', Dir [(''b.txt'', File [1])])]),
           (''private'', Dir [(''docs'', Dir [(''a.txt'', File [2])])])])
   \<and> renameFile ''https://files.example''
      (Dir [(''public'', Dir [(''docs'', Dir [(''b.txt'', File [1])])]),
            (''private'', Dir [(''docs'', Dir [(''a.txt'', File [2])])])])
      ''docs'' ''a.txt'' ''c.txt''
   = (Ok \<lparr>r_action = ''renamed'', r_visibility = Some Hidden,
          r_url = None,
          r_folder = Some ''docs'', r_file = Some ''c.txt''\<rparr> NoListing,
      Dir [(''public'', Dir [(''docs'', Dir [(''b.txt'', File [1])])]),
           (''private'', Dir [(''docs'', Dir [(''c.txt'', File [2])])])])"
  by (simp add: renameFile_def buildPublicUrl_def validate_eval fs_eval)

end
